theory Spec2Isabelle
  imports Main "HOL-Library.Sublist" "HOL-Library.Char_ord" "HOL-Library.List_Lexorder"
    "HOL-Library.AList"
begin

section \<open>Frame extraction batch script: data model\<close>

text \<open>
  Embedding of \<^verbatim>\<open>scripts/extract_video_frames.py\<close>.

  A path is the list of its components below the root (what \<^verbatim>\<open>pathlib\<close> keeps as
  \<^verbatim>\<open>parts\<close>); file names are byte strings. The file system is a tree: a node is a
  regular file or a directory holding named entries. Where a directory lists a name
  twice, the first entry is the one seen, and a listing shows each name once.
  Symbolic links, permissions and the contents of regular files are not modelled: the
  only way the file system refuses an operation here is a missing entry or a regular
  file in the place of a directory. Text is UTF-8.
\<close>

type_synonym path = "string list"

datatype node = File | Dir "(string \<times> node) list"

text \<open>Exceptions of the Python run time that the script can meet.\<close>

datatype exn =
    FileNotFoundError
  | FileExistsError
  | NotADirectoryError
  | IndexError
  | TimeoutExpired
  | UnicodeDecodeError

text \<open>
  What \<^verbatim>\<open>subprocess.run\<close> observes of the child process: it ended with a return code,
  standard output and standard error; it ran into the timeout; the program could not
  be started at all; or it ended and its output could not be decoded as text.
\<close>

datatype run_outcome =
    Returned int string string
  | TimedOut
  | NoSuchProgram
  | Undecodable

text \<open>
  The surroundings of one run. The external tool is a parameter: \<open>ffmpeg_extract\<close>
  gives, for the file system it is started on, the video and the output pattern, what
  \<^verbatim>\<open>subprocess.run\<close> observes and the file system the tool leaves behind. The
  outcome of \<^verbatim>\<open>ffmpeg -version\<close> is \<open>ffmpeg_version\<close>.
\<close>

record env =
  home :: path
  cwd :: path
  ffmpeg_version :: run_outcome
  ffmpeg_extract :: "node \<Rightarrow> path \<Rightarrow> path \<Rightarrow> run_outcome \<times> node"

text \<open>One constructor for each kind of line (or block of lines) the script prints.\<close>

datatype event =
    FFmpegFound string
  | FFmpegMissing
  | DesktopError path
  | VideosDirectory path
  | DirectoryNotFound path
  | NoVideosFound path
  | Found nat
  | Processing nat nat string
  | Skipping nat
  | Created string string
  | Extracting
  | Running string path
  | Extracted nat
  | FailedToExtract
  | ErrorLine "string option"
  | Blank
  | Summary nat nat nat nat
  | UsageMessage
  | HelpMessage

record world =
  fs :: node
  out :: "event list"

definition print :: "event \<Rightarrow> world \<Rightarrow> world" where
  "print e w = w\<lparr>out := out w @ [e]\<rparr>"

record counters =
  processed_count :: nat
  skipped_count :: nat
  failed_count :: nat

record args =
  videos_dir :: "string option"
  force :: bool

text \<open>
  The verdict of \<^verbatim>\<open>ArgumentParser.parse_args\<close> on the command line: the parsed
  arguments, a rejected command line, or a request for help.
\<close>

datatype cmdline = Parsed args | UsageError | Help

datatype ending = Finished | SysExit int | Uncaught exn

text \<open>The exit status the interpreter hands to the operating system.\<close>

fun exit_status :: "ending \<Rightarrow> int" where
  "exit_status Finished = 0"
| "exit_status (SysExit n) = n"
| "exit_status (Uncaught e) = 1"


section \<open>File system operations\<close>

text \<open>
  The node at a path without \<^verbatim>\<open>.\<close> and \<^verbatim>\<open>..\<close>, and the way the kernel walks a path
  from such a place: each component is looked up in a directory, \<^verbatim>\<open>.\<close> stays and
  \<^verbatim>\<open>..\<close> goes up, the parent of the root being the root. A path that \<open>resolve\<close>
  returns need not exist: its last component has not been looked up.
\<close>

fun entry :: "node \<Rightarrow> path \<Rightarrow> node option" where
  "entry t [] = Some t"
| "entry File (c # cs) = None"
| "entry (Dir es) (c # cs) = (case map_of es c of None \<Rightarrow> None | Some m \<Rightarrow> entry m cs)"

fun resolve :: "node \<Rightarrow> path \<Rightarrow> path \<Rightarrow> exn + path" where
  "resolve t at [] = Inr at"
| "resolve t at (c # cs) =
     (case entry t at of
        None \<Rightarrow> Inl FileNotFoundError
      | Some File \<Rightarrow> Inl NotADirectoryError
      | Some (Dir es) \<Rightarrow>
          if c = ''.'' then resolve t at cs
          else if c = ''..'' then resolve t (butlast at) cs
          else resolve t (at @ [c]) cs)"

definition lookup :: "node \<Rightarrow> path \<Rightarrow> node option" where
  "lookup t p = (case resolve t [] p of Inl x \<Rightarrow> None | Inr at \<Rightarrow> entry t at)"

definition exists :: "node \<Rightarrow> path \<Rightarrow> bool" where
  "exists t p = (lookup t p \<noteq> None)"

definition is_dir :: "node \<Rightarrow> path \<Rightarrow> bool" where
  "is_dir t p = (case lookup t p of Some (Dir es) \<Rightarrow> True | _ \<Rightarrow> False)"

definition listdir :: "node \<Rightarrow> path \<Rightarrow> string list" where
  "listdir t p = (case lookup t p of Some (Dir es) \<Rightarrow> remdups (map fst es) | _ \<Rightarrow> [])"

text \<open>
  \<^verbatim>\<open>fnmatch\<close> for the patterns of this script, which hold literal characters and
  \<^verbatim>\<open>*\<close> only: a star stands for any run of characters, also the empty one, and every
  other character for itself, case-sensitively (the POSIX flavour of \<^verbatim>\<open>pathlib\<close>).
\<close>

fun fnmatch :: "string \<Rightarrow> string \<Rightarrow> bool" where
  "fnmatch [] [] = True"
| "fnmatch [] (c # cs) = False"
| "fnmatch (p # ps) [] = (p = CHR ''*'' \<and> fnmatch ps [])"
| "fnmatch (p # ps) (c # cs) =
     (if p = CHR ''*'' then fnmatch ps (c # cs) \<or> fnmatch (p # ps) cs
      else p = c \<and> fnmatch ps cs)"

text \<open>
  \<^verbatim>\<open>Path.glob\<close> with a pattern of one component: the entries of the directory whose
  name matches, hidden ones included, of either kind; nothing when the path is not a
  directory. The order is that of the listing.
\<close>

definition glob :: "node \<Rightarrow> path \<Rightarrow> string \<Rightarrow> path list" where
  "glob t p pat = map (\<lambda>n. p @ [n]) (filter (fnmatch pat) (listdir t p))"

text \<open>
  \<^verbatim>\<open>os.mkdir\<close>: the parent is resolved and has to be a directory, and the last
  component must not be there yet. \<open>add_dir\<close> puts an empty directory at a resolved
  path whose parent is a directory.
\<close>

fun add_dir :: "node \<Rightarrow> path \<Rightarrow> node" where
  "add_dir t [] = t"
| "add_dir File (c # cs) = File"
| "add_dir (Dir es) [c] = Dir (AList.update c (Dir []) es)"
| "add_dir (Dir es) (c # c' # cs) =
     (case map_of es c of
        None \<Rightarrow> Dir es
      | Some m \<Rightarrow> Dir (AList.update c (add_dir m (c' # cs)) es))"

definition os_mkdir :: "node \<Rightarrow> path \<Rightarrow> exn + node" where
  "os_mkdir t p =
     (if p = [] then Inl FileExistsError
      else
        (case resolve t [] (butlast p) of
           Inl x \<Rightarrow> Inl x
         | Inr at \<Rightarrow>
            (case entry t at of
               None \<Rightarrow> Inl FileNotFoundError
             | Some File \<Rightarrow> Inl NotADirectoryError
             | Some (Dir es) \<Rightarrow>
                 if last p = ''.'' \<or> last p = ''..'' \<or> map_of es (last p) \<noteq> None
                 then Inl FileExistsError
                 else Inr (add_dir t (at @ [last p])))))"

text \<open>
  \<^verbatim>\<open>Path.mkdir(parents=True, exist_ok=True)\<close> as \<^verbatim>\<open>pathlib\<close> has it: try
  \<^verbatim>\<open>os.mkdir\<close>; on \<^verbatim>\<open>FileNotFoundError\<close> make the parent first, in the same way, and
  try once more without \<^verbatim>\<open>parents\<close>; on any other error be content if the path is a
  directory, and raise the error otherwise. \<open>mkdir_rev\<close> takes the path reversed, so
  that the parent is the tail.
\<close>

fun mkdir_rev :: "node \<Rightarrow> path \<Rightarrow> exn + node" where
  "mkdir_rev t [] = (if is_dir t [] then Inr t else Inl FileExistsError)"
| "mkdir_rev t (c # rp) =
     (case os_mkdir t (rev (c # rp)) of
        Inr t' \<Rightarrow> Inr t'
      | Inl x \<Rightarrow>
          if x = FileNotFoundError then
            (case mkdir_rev t rp of
               Inl y \<Rightarrow> Inl y
             | Inr t1 \<Rightarrow>
                (case os_mkdir t1 (rev (c # rp)) of
                   Inr t2 \<Rightarrow> Inr t2
                 | Inl y \<Rightarrow>
                     if y = FileNotFoundError then Inl y
                     else if is_dir t1 (rev (c # rp)) then Inr t1 else Inl y))
          else if is_dir t (rev (c # rp)) then Inr t else Inl x)"

definition mkdir :: "node \<Rightarrow> path \<Rightarrow> exn + node" where
  "mkdir t p = mkdir_rev t (rev p)"

text \<open>
  The \<^verbatim>\<open>/\<close> of \<^verbatim>\<open>pathlib\<close> with one name on the right: a component \<^verbatim>\<open>.\<close> is dropped,
  \<^verbatim>\<open>..\<close> is kept for the kernel to resolve.
\<close>

definition join :: "path \<Rightarrow> string \<Rightarrow> path" where
  "join p c = (if c = ''.'' then p else p @ [c])"

text \<open>The final component of a path and \<^verbatim>\<open>PurePath.stem\<close> (Python 3.8 to 3.13).\<close>

definition name :: "path \<Rightarrow> string" where
  "name p = (if p = [] then [] else last p)"

fun rfind :: "char \<Rightarrow> string \<Rightarrow> nat option" where
  "rfind c [] = None"
| "rfind c (x # xs) =
     (case rfind c xs of
        Some i \<Rightarrow> Some (Suc i)
      | None \<Rightarrow> if x = c then Some 0 else None)"

definition stem :: "path \<Rightarrow> string" where
  "stem p =
     (let nm = name p in
      case rfind CHR ''.'' nm of
        None \<Rightarrow> nm
      | Some i \<Rightarrow> if 0 < i \<and> int i < int (length nm) - 1 then take i nm else nm)"


text \<open>
  \<^verbatim>\<open>str.split()\<close>: the text is cut at runs of white space, which are the ASCII
  characters 9 to 13, 28 to 32 and the code points U+0085, U+00A0, U+1680, U+2000 to
  U+200A, U+2028, U+2029, U+202F, U+205F and U+3000, here in their UTF-8 encoding. The
  number \<open>k\<close> counts the bytes of a separator still to be passed over. Then
  \<^verbatim>\<open>Path(s)\<close> for the string of the command line: components are cut at \<^verbatim>\<open>/\<close>, empty
  ones and \<^verbatim>\<open>.\<close> are dropped, and a relative path is taken from the working directory.
\<close>

definition white_space :: "string list" where
  "white_space =
     [[CHR 0x09], [CHR 0x0A], [CHR 0x0B], [CHR 0x0C], [CHR 0x0D],
      [CHR 0x1C], [CHR 0x1D], [CHR 0x1E], [CHR 0x1F], [CHR 0x20],
      [CHR 0xC2, CHR 0x85], [CHR 0xC2, CHR 0xA0], [CHR 0xE1, CHR 0x9A, CHR 0x80],
      [CHR 0xE2, CHR 0x80, CHR 0x80], [CHR 0xE2, CHR 0x80, CHR 0x81],
      [CHR 0xE2, CHR 0x80, CHR 0x82], [CHR 0xE2, CHR 0x80, CHR 0x83],
      [CHR 0xE2, CHR 0x80, CHR 0x84], [CHR 0xE2, CHR 0x80, CHR 0x85],
      [CHR 0xE2, CHR 0x80, CHR 0x86], [CHR 0xE2, CHR 0x80, CHR 0x87],
      [CHR 0xE2, CHR 0x80, CHR 0x88], [CHR 0xE2, CHR 0x80, CHR 0x89],
      [CHR 0xE2, CHR 0x80, CHR 0x8A], [CHR 0xE2, CHR 0x80, CHR 0xA8],
      [CHR 0xE2, CHR 0x80, CHR 0xA9], [CHR 0xE2, CHR 0x80, CHR 0xAF],
      [CHR 0xE2, CHR 0x81, CHR 0x9F], [CHR 0xE3, CHR 0x80, CHR 0x80]]"

fun split_ws :: "nat \<Rightarrow> string \<Rightarrow> string \<Rightarrow> string list" where
  "split_ws k cur [] = (if cur = [] then [] else [cur])"
| "split_ws k cur (c # cs) =
     (if 0 < k then split_ws (k - 1) cur cs
      else
        (case find (\<lambda>sep. take (length sep) (c # cs) = sep) white_space of
           Some sep \<Rightarrow>
             (if cur = [] then split_ws (length sep - 1) [] cs
              else cur # split_ws (length sep - 1) [] cs)
         | None \<Rightarrow> split_ws 0 (cur @ [c]) cs))"

fun split_on :: "char \<Rightarrow> string \<Rightarrow> string \<Rightarrow> string list" where
  "split_on sep cur [] = [cur]"
| "split_on sep cur (c # cs) =
     (if c = sep then cur # split_on sep [] cs else split_on sep (cur @ [c]) cs)"

definition Path_of :: "env \<Rightarrow> string \<Rightarrow> path" where
  "Path_of e s =
     (let comps = filter (\<lambda>c. c \<noteq> [] \<and> c \<noteq> ''.'') (split_on CHR ''/'' [] s)
      in if s \<noteq> [] \<and> hd s = CHR ''/'' then comps else cwd e @ comps)"


section \<open>The functions of the script\<close>

definition check_ffmpeg_installed :: "env \<Rightarrow> world \<Rightarrow> (exn + bool) \<times> world" where
  "check_ffmpeg_installed e w =
     (case ffmpeg_version e of
        Returned rc sout serr \<Rightarrow>
          if rc = 0 then
            (let toks = split_ws 0 [] sout
             in if 2 < length toks then (Inr True, print (FFmpegFound (toks ! 2)) w)
                else (Inl IndexError, w))
          else (Inr False, print FFmpegMissing w)
      | NoSuchProgram \<Rightarrow> (Inr False, print FFmpegMissing w)
      | TimedOut \<Rightarrow> (Inl TimeoutExpired, w)
      | Undecodable \<Rightarrow> (Inl UnicodeDecodeError, w))"

definition get_desktop_path :: "env \<Rightarrow> world \<Rightarrow> exn + path" where
  "get_desktop_path e w =
     (let desktop = home e @ [''Desktop'']
      in if \<not> exists (fs w) desktop then Inl FileNotFoundError else Inr desktop)"

definition get_video_files :: "node \<Rightarrow> path \<Rightarrow> path list" where
  "get_video_files t d = sort (glob t d ''*.mp4'' @ glob t d ''*.MP4'')"

definition is_already_processed :: "path \<Rightarrow> path \<Rightarrow> world \<Rightarrow> (bool \<times> nat) \<times> world" where
  "is_already_processed video_path d w =
     (let video_name = stem video_path;
          all_frames_dir = join (join d video_name) ''all_frames''
      in if exists (fs w) all_frames_dir then
           (let frame_files = glob (fs w) all_frames_dir ''frame_*.jpg''
            in if frame_files \<noteq> [] then ((True, length frame_files), w) else ((False, 0), w))
         else ((False, 0), w))"

definition timeout_msg :: string where
  "timeout_msg = ''FFmpeg timed out (>5 minutes) - video file may be corrupted or too large''"

definition extract_frames ::
  "env \<Rightarrow> path \<Rightarrow> path \<Rightarrow> world \<Rightarrow> (exn + bool \<times> nat \<times> string option) \<times> world" where
  "extract_frames e video_path output_dir w =
     (case mkdir (fs w) output_dir of
        Inl x \<Rightarrow> (Inl x, w)
      | Inr t1 \<Rightarrow>
          (let output_pattern = output_dir @ [''frame_%04d.jpg''];
               w1 = print (Running (name video_path) output_pattern) (w\<lparr>fs := t1\<rparr>)
           in case ffmpeg_extract e t1 video_path output_pattern of
                (Returned rc sout serr, t2) \<Rightarrow>
                  if rc = 0 then
                    (Inr (True, length (glob t2 output_dir ''frame_*.jpg''), None), w1\<lparr>fs := t2\<rparr>)
                  else (Inr (False, 0, Some (''FFmpeg error: '' @ serr)), w1\<lparr>fs := t2\<rparr>)
              | (TimedOut, t2) \<Rightarrow> (Inr (False, 0, Some timeout_msg), w1\<lparr>fs := t2\<rparr>)
              | (NoSuchProgram, t2) \<Rightarrow> (Inl FileNotFoundError, w1\<lparr>fs := t2\<rparr>)
              | (Undecodable, t2) \<Rightarrow> (Inl UnicodeDecodeError, w1\<lparr>fs := t2\<rparr>)))"

text \<open>
  The body of the loop of \<^verbatim>\<open>process_videos\<close> for one video: the counters after it, or
  the exception that leaves the loop.
\<close>

definition loop_body ::
  "env \<Rightarrow> path \<Rightarrow> bool \<Rightarrow> nat \<Rightarrow> nat \<Rightarrow> path \<Rightarrow> counters \<Rightarrow> world \<Rightarrow> (exn + counters) \<times> world" where
  "loop_body e d frc tot i video_path cs w =
     (let video_name = stem video_path;
          w1 = print (Processing i tot (name video_path)) w;
          ((already_processed, existing_frames), w2) = is_already_processed video_path d w1
      in if already_processed \<and> \<not> frc then
           (Inr (cs\<lparr>skipped_count := skipped_count cs + 1\<rparr>),
            print Blank (print (Skipping existing_frames) w2))
         else
           (let video_dir = join d video_name;
                all_frames_dir = join video_dir ''all_frames'';
                release_frames_dir = join video_dir ''release_frames'' 
            in case mkdir (fs w2) all_frames_dir of
                 Inl x \<Rightarrow> (Inl x, w2)
               | Inr t3 \<Rightarrow>
                  (case mkdir t3 release_frames_dir of
                     Inl x \<Rightarrow> (Inl x, w2\<lparr>fs := t3\<rparr>)
                   | Inr t4 \<Rightarrow>
                      (let w5 = print Extracting
                                  (print (Created video_name ''release_frames'')
                                    (print (Created video_name ''all_frames'') (w2\<lparr>fs := t4\<rparr>)))
                       in case extract_frames e video_path all_frames_dir w5 of
                            (Inl x, w6) \<Rightarrow> (Inl x, w6)
                          | (Inr (success, frame_count, error_msg), w6) \<Rightarrow>
                              if success then
                                (Inr (cs\<lparr>processed_count := processed_count cs + 1\<rparr>),
                                 print Blank (print (Extracted frame_count) w6))
                              else
                                (Inr (cs\<lparr>failed_count := failed_count cs + 1\<rparr>),
                                 print Blank (print (ErrorLine error_msg) (print FailedToExtract w6)))))))"

fun loop ::
  "env \<Rightarrow> path \<Rightarrow> bool \<Rightarrow> nat \<Rightarrow> nat \<Rightarrow> path list \<Rightarrow> counters \<Rightarrow> world \<Rightarrow> (exn + counters) \<times> world" where
  "loop e d frc tot i [] cs w = (Inr cs, w)"
| "loop e d frc tot i (video_path # rest) cs w =
     (case loop_body e d frc tot i video_path cs w of
        (Inl x, w') \<Rightarrow> (Inl x, w')
      | (Inr cs', w') \<Rightarrow> loop e d frc tot (i + 1) rest cs' w')"

definition process_videos :: "env \<Rightarrow> path \<Rightarrow> bool \<Rightarrow> world \<Rightarrow> (exn + unit) \<times> world" where
  "process_videos e d frc w =
     (if \<not> exists (fs w) d then (Inr (), print (DirectoryNotFound d) w)
      else
        (let video_files = get_video_files (fs w) d
         in if video_files = [] then (Inr (), print (NoVideosFound d) w)
            else
              (case loop e d frc (length video_files) 1 video_files
                      \<lparr>processed_count = 0, skipped_count = 0, failed_count = 0\<rparr>
                      (print (Found (length video_files)) w) of
                 (Inl x, w') \<Rightarrow> (Inl x, w')
               | (Inr cs, w') \<Rightarrow>
                   (Inr (),
                    print (Summary (processed_count cs) (skipped_count cs) (failed_count cs)
                             (length video_files)) w'))))"

definition run_from :: "env \<Rightarrow> args \<Rightarrow> path \<Rightarrow> world \<Rightarrow> ending \<times> world" where
  "run_from e a d w =
     (case check_ffmpeg_installed e (print (VideosDirectory d) w) of
        (Inl x, w') \<Rightarrow> (Uncaught x, w')
      | (Inr ok, w') \<Rightarrow>
          if \<not> ok then (SysExit 1, w')
          else (case process_videos e d (force a) w' of
                  (Inl x, w'') \<Rightarrow> (Uncaught x, w'')
                | (Inr u, w'') \<Rightarrow> (Finished, w'')))"

definition main :: "env \<Rightarrow> cmdline \<Rightarrow> world \<Rightarrow> ending \<times> world" where
  "main e cl w =
     (case cl of
        UsageError \<Rightarrow> (SysExit 2, print UsageMessage w)
      | Help \<Rightarrow> (SysExit 0, print HelpMessage w)
      | Parsed a \<Rightarrow>
          if (case videos_dir a of None \<Rightarrow> False | Some s \<Rightarrow> s \<noteq> [])
          then run_from e a (Path_of e (the (videos_dir a))) w
          else (case get_desktop_path e w of
                  Inl x \<Rightarrow>
                    if x = FileNotFoundError
                    then (SysExit 1, print (DesktopError (home e @ [''Desktop''])) w)
                    else (Uncaught x, w)
                | Inr desktop \<Rightarrow> run_from e a (desktop @ [''baseball_vids'']) w))"


section \<open>Notions used to state the properties\<close>

text \<open>
  The directory the frames of a video go to, the names the script takes for frames
  (the pattern of its two \<^verbatim>\<open>glob\<close> calls), and the number of such entries in a
  directory.
\<close>

definition frames_dir :: "path \<Rightarrow> path \<Rightarrow> path" where
  "frames_dir video_path d = join (join d (stem video_path)) ''all_frames''"

definition frame_name :: "string \<Rightarrow> bool" where
  "frame_name = fnmatch ''frame_*.jpg''"

definition frame_count :: "node \<Rightarrow> path \<Rightarrow> nat" where
  "frame_count t p = length (filter frame_name (listdir t p))"

text \<open>
  A small directory of videos: \<open>game1\<close> has two frames, \<open>game2\<close> an empty frame
  directory.
\<close>

definition example_fs :: node where
  "example_fs =
     Dir [(''vids'',
       Dir [(''game1.mp4'', File), (''notes.txt'', File), (''game2.MP4'', File),
            (''game1'', Dir [(''all_frames'',
                               Dir [(''frame_0001.jpg'', File), (''frame_0002.jpg'', File),
                                    (''thumbs.db'', File)]),
                             (''release_frames'', Dir [])]),
            (''game2'', Dir [(''all_frames'', Dir [])])])]"

text \<open>
  A stand-in for the external tool, used in the examples: it runs into the timeout on
  \<open>game2.MP4\<close> after writing one frame, rejects \<open>bad.mp4\<close> with a diagnostic, and
  writes two frames for every other video while announcing 99 of them.
\<close>

fun write_file :: "node \<Rightarrow> path \<Rightarrow> node" where
  "write_file t [] = t"
| "write_file File (c # cs) = File"
| "write_file (Dir es) [c] = Dir (AList.update c File es)"
| "write_file (Dir es) (c # c' # cs) =
     (case map_of es c of
        None \<Rightarrow> Dir es
      | Some m \<Rightarrow> Dir (AList.update c (write_file m (c' # cs)) es))"

definition example_tool :: "node \<Rightarrow> path \<Rightarrow> path \<Rightarrow> run_outcome \<times> node" where
  "example_tool t v pat =
     (if name v = ''game2.MP4'' then
        (TimedOut, write_file t (butlast pat @ [''frame_0001.jpg'']))
      else if name v = ''bad.mp4'' then (Returned 1 [] ''Invalid data found'', t)
      else (Returned 0 [] ''frame=   99'',
            write_file (write_file t (butlast pat @ [''frame_0001.jpg'']))
              (butlast pat @ [''frame_0002.jpg''])))"

definition example_env :: env where
  "example_env =
     \<lparr>home = [''home'', ''u''], cwd = [''home'', ''u''],
      ffmpeg_version = Returned 0 ''ffmpeg version 6.0 Copyright'' [],
      ffmpeg_extract = example_tool\<rparr>"

text \<open>
  The specification's notion of a video file: the last four characters of the name are
  \<^verbatim>\<open>.mp4\<close> in any mix of upper and lower case.
\<close>

definition lower_ascii :: "char \<Rightarrow> char" where
  "lower_ascii c =
     (case map_of (zip ''ABCDEFGHIJKLMNOPQRSTUVWXYZ'' ''abcdefghijklmnopqrstuvwxyz'') c of
        Some l \<Rightarrow> l
      | None \<Rightarrow> c)"

definition spec_mp4_extension :: "string \<Rightarrow> bool" where
  "spec_mp4_extension n =
     (4 \<le> length n \<and> map lower_ascii (drop (length n - 4) n) = ''.mp4'')"

definition claim_dir_fs :: node where
  "claim_dir_fs =
     Dir [(''vids'', Dir [(''notes.txt'', File), (''game2.MP4'', File), (''game1.mp4'', File)])]"

definition claim_dir_fs' :: node where
  "claim_dir_fs' =
     Dir [(''vids'', Dir [(''game1.mp4'', File), (''game2.MP4'', File), (''notes.txt'', File)])]"

definition mixed_case_fs :: node where
  "mixed_case_fs = Dir [(''vids'', Dir [(''game3.Mp4'', File)])]"

text \<open>
  The second directory made for a video, the pattern handed to the tool, and what a
  log tells about a run: how many extractions were started and how many videos were
  skipped.
\<close>

definition curation_dir :: "path \<Rightarrow> path \<Rightarrow> path" where
  "curation_dir video_path d = join (join d (stem video_path)) ''release_frames''"

definition output_pattern :: "path \<Rightarrow> path \<Rightarrow> path" where
  "output_pattern video_path d = frames_dir video_path d @ [''frame_%04d.jpg'']"

definition attempts :: "event list \<Rightarrow> nat" where
  "attempts evs = length (filter (\<lambda>x. x = Extracting) evs)"

definition skips :: "event list \<Rightarrow> nat" where
  "skips evs = length (filter (\<lambda>x. case x of Skipping n \<Rightarrow> True | _ \<Rightarrow> False) evs)"

definition started :: "nat \<Rightarrow> nat \<Rightarrow> path \<Rightarrow> path \<Rightarrow> event list" where
  "started i tot v d =
     [Processing i tot (name v), Created (stem v) ''all_frames'',
      Created (stem v) ''release_frames'', Extracting, Running (name v) (output_pattern v d)]"

text \<open>
  The videos a log shows as reached, with their index; one counter raised by one; and
  the videos of a list that are already processed in a file system.
\<close>

definition visited :: "event list \<Rightarrow> (nat \<times> string) list" where
  "visited evs =
     concat (map (\<lambda>x. case x of Processing i tot nm \<Rightarrow> [(i, nm)] | _ \<Rightarrow> []) evs)"

definition incremented_one :: "counters \<Rightarrow> counters \<Rightarrow> bool" where
  "incremented_one cs cs' =
     (cs' = cs\<lparr>processed_count := processed_count cs + 1\<rparr> \<or>
      cs' = cs\<lparr>skipped_count := skipped_count cs + 1\<rparr> \<or>
      cs' = cs\<lparr>failed_count := failed_count cs + 1\<rparr>)"

definition already :: "node \<Rightarrow> path \<Rightarrow> path list \<Rightarrow> path list" where
  "already t d vs = filter (\<lambda>v. 0 < frame_count t (frames_dir v d)) vs"

text \<open>The condition under which the loop skips a video.\<close>

definition skip_now :: "node \<Rightarrow> path \<Rightarrow> bool \<Rightarrow> path \<Rightarrow> bool" where
  "skip_now t d frc v = (fst (fst (is_already_processed v d \<lparr>fs = t, out = []\<rparr>)) \<and> \<not> frc)"

text \<open>
  A batch for the examples: \<open>game1\<close> has a frame already, \<open>bad.mp4\<close> is rejected by
  the tool, \<open>game2.MP4\<close> runs into the timeout and \<open>zoom.mp4\<close> is extracted.
\<close>

definition batch_fs :: node where
  "batch_fs =
     Dir [(''vids'',
       Dir [(''zoom.mp4'', File), (''game2.MP4'', File), (''bad.mp4'', File),
            (''game1.mp4'', File),
            (''game1'', Dir [(''all_frames'', Dir [(''frame_0001.jpg'', File)])])])]"

text \<open>
  A directory in which a regular file \<open>clip\<close> has the name of the directory that
  \<open>clip.mp4\<close> needs.
\<close>

definition clash_fs :: node where
  "clash_fs =
     Dir [(''vids'', Dir [(''clip'', File), (''clip.mp4'', File), (''zebra.mp4'', File)])]"

text \<open>
  The cases of \<open>main\<close>: a directory is given on the command line; the directory the run
  works on; the default base directory cannot be located; the tool is unavailable
  (it cannot be started, or \<^verbatim>\<open>ffmpeg -version\<close> ends with a return code other than 0);
  and the world in which \<open>process_videos\<close> is started.
\<close>

definition override :: "args \<Rightarrow> bool" where
  "override a = (case videos_dir a of None \<Rightarrow> False | Some s \<Rightarrow> s \<noteq> [])"

definition target :: "env \<Rightarrow> args \<Rightarrow> path" where
  "target e a =
     (if override a then Path_of e (the (videos_dir a))
      else home e @ [''Desktop'', ''baseball_vids''])"

definition desktop_missing :: "env \<Rightarrow> args \<Rightarrow> world \<Rightarrow> bool" where
  "desktop_missing e a w = (\<not> override a \<and> \<not> exists (fs w) (home e @ [''Desktop'']))"

definition tool_unavailable :: "env \<Rightarrow> bool" where
  "tool_unavailable e =
     (case ffmpeg_version e of
        Returned rc sout serr \<Rightarrow> rc \<noteq> 0
      | NoSuchProgram \<Rightarrow> True
      | _ \<Rightarrow> False)"

definition checked :: "env \<Rightarrow> args \<Rightarrow> world \<Rightarrow> (exn + bool) \<times> world" where
  "checked e a w = check_ffmpeg_installed e (print (VideosDirectory (target e a)) w)"

definition clash_args :: args where
  "clash_args = \<lparr>videos_dir = Some ''/vids'', force = False\<rparr>"

text \<open>
  Two videos whose names differ in the case of the extension only, and so share the
  directory \<open>a\<close>; and a tool that always fails and writes nothing.
\<close>

definition twin_fs :: node where
  "twin_fs = Dir [(''vids'', Dir [(''a.mp4'', File), (''a.MP4'', File)])]"

definition failing_env :: env where
  "failing_env =
     \<lparr>home = [''home'', ''u''], cwd = [''home'', ''u''],
      ffmpeg_version = Returned 0 ''ffmpeg version 6.0 Copyright'' [],
      ffmpeg_extract = (\<lambda>t v pat. (Returned 1 [] ''Invalid data found'', t))\<rparr>"

definition single_fs :: node where
  "single_fs = Dir [(''vids'', Dir [(''bad.mp4'', File)])]"

definition good_fs :: node where
  "good_fs = Dir [(''vids'', Dir [(''zoom.mp4'', File), (''game1.mp4'', File)])]"

text \<open>
  A path is plain when no component is \<^verbatim>\<open>.\<close> or \<^verbatim>\<open>..\<close>; the stems of a list of videos are
  plain when none of them is. The tool is confined to the output directory it is given
  (the parent of the output pattern, for a plain pattern) when every place beside that
  directory holds after the run what it held before. What a log tells about extractions that succeeded and
  that failed.
\<close>

definition plain :: "path \<Rightarrow> bool" where
  "plain p = (''.'' \<notin> set p \<and> ''..'' \<notin> set p)"

definition tool_confined :: "env \<Rightarrow> bool" where
  "tool_confined e =
     (\<forall>t v pat q. plain pat \<longrightarrow> q \<parallel> butlast pat \<longrightarrow>
        entry (snd (ffmpeg_extract e t v pat)) q = entry t q)"

definition extractions :: "event list \<Rightarrow> nat" where
  "extractions evs = length (filter (\<lambda>x. case x of Extracted n \<Rightarrow> True | _ \<Rightarrow> False) evs)"

definition failures :: "event list \<Rightarrow> nat" where
  "failures evs = length (filter (\<lambda>x. x = FailedToExtract) evs)"

text \<open>Directories whose video names put a dot in the place of the stem.\<close>

definition dotted_fs :: node where
  "dotted_fs =
     Dir [(''vids'', Dir [(''..mp4'', File), (''all_frames'', File), (''z.mp4'', File)])]"

definition updir_fs :: node where
  "updir_fs =
     Dir [(''all_frames'', Dir [(''frame_0001.jpg'', File)]),
          (''vids'', Dir [(''...mp4'', File)])]"

text \<open>
  How the tool ended, as the script sees it: well, with a failure that
  \<open>extract_frames\<close> catches (the timeout, a return code other than 0), or in a way
  that raises past it. And the lines printed after the tool has ended.
\<close>

definition tool_ok :: "run_outcome \<Rightarrow> bool" where
  "tool_ok r = (case r of Returned rc sout serr \<Rightarrow> rc = 0 | _ \<Rightarrow> False)"

definition tool_failed :: "run_outcome \<Rightarrow> bool" where
  "tool_failed r = (case r of Returned rc sout serr \<Rightarrow> rc \<noteq> 0 | TimedOut \<Rightarrow> True | _ \<Rightarrow> False)"

definition tool_tail :: "run_outcome \<Rightarrow> node \<Rightarrow> path \<Rightarrow> event list" where
  "tool_tail r t p =
     (case r of
        Returned rc sout serr \<Rightarrow>
          if rc = 0 then [Extracted (frame_count t p), Blank]
          else [FailedToExtract, ErrorLine (Some (''FFmpeg error: '' @ serr)), Blank]
      | TimedOut \<Rightarrow> [FailedToExtract, ErrorLine (Some timeout_msg), Blank]
      | _ \<Rightarrow> [])"

text \<open>
  The stems of the videos for which a log shows the frame directory being made, in
  the order of the log: these are the videos whose extraction was attempted. And the
  videos of a list that have no frame yet in a file system.
\<close>

definition attempted :: "event list \<Rightarrow> string list" where
  "attempted evs =
     concat (map (\<lambda>x. case x of Created s sub \<Rightarrow> if sub = ''all_frames'' then [s] else []
                          | _ \<Rightarrow> []) evs)"

definition pending :: "node \<Rightarrow> path \<Rightarrow> path list \<Rightarrow> path list" where
  "pending t d vs = filter (\<lambda>v. frame_count t (frames_dir v d) = 0) vs"

text \<open>
  A directory whose only video has a stem that itself ends in \<^verbatim>\<open>.mp4\<close>: the directory
  made for it is found as a video by the next run.
\<close>

definition nested_fs :: node where
  "nested_fs = Dir [(''vids'', Dir [(''a.mp4.mp4'', File)])]"


section \<open>Pattern matching\<close>

lemma fnmatch_star: "fnmatch (CHR ''*'' # ps) n = (\<exists>k\<le>length n. fnmatch ps (drop k n))"
proof (induction n)
  case Nil
  then show ?case by simp
next
  case (Cons c cs)
  have "(\<exists>k\<le>length (c # cs). fnmatch ps (drop k (c # cs))) =
        (fnmatch ps (c # cs) \<or> (\<exists>k\<le>length cs. fnmatch ps (drop k cs)))"
    (is "?L = ?R")
  proof
    assume ?L
    then obtain k where k: "k \<le> length (c # cs)" "fnmatch ps (drop k (c # cs))" by blast
    show ?R
    proof (cases k)
      case 0
      with k show ?thesis by simp
    next
      case (Suc j)
      with k show ?thesis by auto
    qed
  next
    assume ?R
    then show ?L
    proof
      assume "fnmatch ps (c # cs)"
      then have "0 \<le> length (c # cs) \<and> fnmatch ps (drop 0 (c # cs))" by simp
      then show ?L by blast
    next
      assume "\<exists>k\<le>length cs. fnmatch ps (drop k cs)"
      then obtain k where "k \<le> length cs" "fnmatch ps (drop k cs)" by blast
      then have "Suc k \<le> length (c # cs) \<and> fnmatch ps (drop (Suc k) (c # cs))" by simp
      then show ?L by blast
    qed
  qed
  with Cons show ?case by simp
qed

lemma fnmatch_literal: "CHR ''*'' \<notin> set ps \<Longrightarrow> fnmatch ps n = (n = ps)"
  by (induction ps n rule: fnmatch.induct) auto

lemma fnmatch_literal_prefix:
  "CHR ''*'' \<notin> set lit \<Longrightarrow> fnmatch (lit @ ps) n = (prefix lit n \<and> fnmatch ps (drop (length lit) n))"
proof (induction lit arbitrary: n)
  case Nil
  then show ?case by simp
next
  case (Cons a lit)
  then show ?case by (cases n) auto
qed

lemma fnmatch_star_literal:
  "CHR ''*'' \<notin> set lit \<Longrightarrow> fnmatch (CHR ''*'' # lit) n = suffix lit n"
proof -
  assume a: "CHR ''*'' \<notin> set lit"
  have "fnmatch (CHR ''*'' # lit) n = (\<exists>k\<le>length n. drop k n = lit)"
    by (simp add: fnmatch_star fnmatch_literal [OF a])
  also have "\<dots> = suffix lit n"
  proof
    assume "\<exists>k\<le>length n. drop k n = lit"
    then show "suffix lit n" using suffix_drop by blast
  next
    assume "suffix lit n"
    then obtain zs where "n = zs @ lit" by (auto simp: suffix_def)
    then have "length zs \<le> length n \<and> drop (length zs) n = lit" by simp
    then show "\<exists>k\<le>length n. drop k n = lit" by blast
  qed
  finally show ?thesis .
qed

lemma fnmatch_mp4: "fnmatch ''*.mp4'' n = suffix ''.mp4'' n"
  by (rule fnmatch_star_literal) simp

lemma fnmatch_MP4: "fnmatch ''*.MP4'' n = suffix ''.MP4'' n"
  by (rule fnmatch_star_literal) simp

lemma fnmatch_frame: "fnmatch ''frame_*.jpg'' n = (\<exists>m. n = ''frame_'' @ m @ ''.jpg'')"
proof -
  have "fnmatch (''frame_'' @ ''*.jpg'') n =
        (prefix ''frame_'' n \<and> fnmatch ''*.jpg'' (drop (length ''frame_'') n))"
    by (rule fnmatch_literal_prefix) simp
  moreover have "fnmatch ''*.jpg'' k = suffix ''.jpg'' k" for k
    by (rule fnmatch_star_literal) simp
  ultimately have "fnmatch ''frame_*.jpg'' n = (prefix ''frame_'' n \<and> suffix ''.jpg'' (drop (length ''frame_'') n))"
    by simp
  also have "\<dots> = (\<exists>m. n = ''frame_'' @ m @ ''.jpg'')"
  proof
    assume h: "prefix ''frame_'' n \<and> suffix ''.jpg'' (drop (length ''frame_'') n)"
    then obtain r where r: "n = ''frame_'' @ r" by (auto simp: prefix_def)
    with h have "suffix ''.jpg'' r" by simp
    then obtain m where "r = m @ ''.jpg''" by (auto simp: suffix_def)
    with r show "\<exists>m. n = ''frame_'' @ m @ ''.jpg''" by blast
  next
    assume "\<exists>m. n = ''frame_'' @ m @ ''.jpg''"
    then obtain m where "n = ''frame_'' @ m @ ''.jpg''" by blast
    then show "prefix ''frame_'' n \<and> suffix ''.jpg'' (drop (length ''frame_'') n)"
      by (simp add: suffix_def)
  qed
  finally show ?thesis .
qed


section \<open>Paths and directories\<close>

lemma entry_append:
  "entry t (a @ b) = (case entry t a of None \<Rightarrow> None | Some n \<Rightarrow> entry n b)"
proof (induction t a rule: entry.induct)
  case (3 es c cs)
  then show ?case by (cases "map_of es c") simp_all
qed simp_all

lemma entry_File_Cons: "entry File p = (if p = [] then Some File else None)"
  by (cases p) simp_all

lemma plain_Cons: "plain (c # cs) = (c \<noteq> ''.'' \<and> c \<noteq> ''..'' \<and> plain cs)"
  by (auto simp: plain_def)

lemma plain_append: "plain (a @ b) = (plain a \<and> plain b)"
  by (auto simp: plain_def)

lemma resolve_plain:
  "plain q \<Longrightarrow>
     resolve t at q = Inr (at @ q) \<or> (\<exists>x. resolve t at q = Inl x) \<and> entry t (at @ q) = None"
proof (induction q arbitrary: at)
  case Nil
  then show ?case by simp
next
  case (Cons c cs)
  then have c: "c \<noteq> ''.''" "c \<noteq> ''..''" and pl: "plain cs"
    by (simp_all add: plain_Cons)
  show ?case
  proof (cases "entry t at")
    case None
    then show ?thesis by (simp add: entry_append)
  next
    case (Some n)
    show ?thesis
    proof (cases n)
      case File
      with Some show ?thesis by (simp add: entry_append)
    next
      case (Dir es)
      from Cons.IH [OF pl, of "at @ [c]"] Some Dir c show ?thesis by simp
    qed
  qed
qed

lemma lookup_plain: "plain p \<Longrightarrow> lookup t p = entry t p"
  using resolve_plain [of p t "[]"] by (auto simp: lookup_def)

lemma add_dir_frame:
  "entry t p = None \<Longrightarrow> \<not> prefix q p \<Longrightarrow> entry (add_dir t p) q = entry t q"
proof (induction t p arbitrary: q rule: add_dir.induct)
  case (1 t)
  then show ?case by simp
next
  case (2 c cs)
  then show ?case by simp
next
  case (3 es c)
  from "3.prems"(2) obtain a as where q: "q = a # as" by (cases q) simp_all
  from "3.prems"(1) have no: "map_of es c = None" by (simp split: option.splits)
  show ?case
  proof (cases "a = c")
    case True
    with "3.prems"(2) q have "as \<noteq> []" by auto
    then obtain b bs where "as = b # bs" by (cases as) simp_all
    with True q no show ?thesis by (simp add: update_conv')
  next
    case False
    with q show ?thesis by (simp add: update_conv')
  qed
next
  case (4 es c c' cs)
  from "4.prems"(2) obtain a as where q: "q = a # as" by (cases q) simp_all
  show ?case
  proof (cases "map_of es c")
    case None
    then show ?thesis by simp
  next
    case (Some m)
    show ?thesis
    proof (cases "a = c")
      case True
      from "4.prems"(1) Some have e: "entry m (c' # cs) = None" by simp
      from "4.prems"(2) q True have np: "\<not> prefix as (c' # cs)" by simp
      from "4.IH" [OF Some e np] True q Some show ?thesis by (simp add: update_conv')
    next
      case False
      with q Some show ?thesis by (simp add: update_conv')
    qed
  qed
qed

lemma plain_butlast: "plain p \<Longrightarrow> plain (butlast p)"
  by (auto simp: plain_def dest: in_set_butlastD)

lemma os_mkdir_plain:
  assumes pl: "plain p" and ok: "os_mkdir t p = Inr t'"
  shows "t' = add_dir t p \<and> entry t p = None"
proof -
  from ok have ne: "p \<noteq> []" by (auto simp: os_mkdir_def)
  then have p: "butlast p @ [last p] = p" by simp
  from ok ne obtain at where r: "resolve t [] (butlast p) = Inr at"
    by (auto simp: os_mkdir_def split: sum.splits)
  from resolve_plain [OF plain_butlast [OF pl], of t "[]"] r have at: "at = butlast p" by auto
  from ok ne r obtain es where d: "entry t at = Some (Dir es)"
    and n: "map_of es (last p) = None" and t': "t' = add_dir t (at @ [last p])"
    by (auto simp: os_mkdir_def split: option.splits node.splits if_splits)
  have "entry t (butlast p @ [last p]) = None"
    using d n unfolding at by (simp add: entry_append)
  with t' show ?thesis unfolding at p by simp
qed

lemma os_mkdir_frame:
  assumes "plain p" and "os_mkdir t p = Inr t'" and "\<not> prefix q p"
  shows "entry t' q = entry t q"
  using os_mkdir_plain [OF assms(1,2)] add_dir_frame [of t p q] assms(3) by simp

lemma mkdir_rev_frame:
  "plain rp \<Longrightarrow> mkdir_rev t rp = Inr t' \<Longrightarrow> \<not> prefix q (rev rp) \<Longrightarrow> entry t' q = entry t q"
proof (induction rp arbitrary: t t')
  case Nil
  then show ?case by (simp split: if_splits)
next
  case (Cons c rp)
  let ?p = "rev (c # rp)"
  have pl: "plain ?p" using Cons.prems(1) by (simp add: plain_def)
  have plr: "plain rp" using Cons.prems(1) by (simp add: plain_Cons)
  have npr: "\<not> prefix q (rev rp)"
  proof
    assume "prefix q (rev rp)"
    then have "prefix q (rev rp @ [c])" by (rule prefix_prefix)
    with Cons.prems(3) show False by simp
  qed
  show ?case
  proof (cases "os_mkdir t ?p")
    case (Inr t1)
    with Cons.prems(2) have "t' = t1" by simp
    with os_mkdir_frame [OF pl Inr Cons.prems(3)] show ?thesis by simp
  next
    case (Inl x)
    show ?thesis
    proof (cases "x = FileNotFoundError")
      case False
      with Cons.prems(2) Inl have "t' = t" by (simp split: if_splits)
      then show ?thesis by simp
    next
      case True
      with Cons.prems(2) Inl obtain t1 where m: "mkdir_rev t rp = Inr t1"
        by (auto split: sum.splits)
      have e1: "entry t1 q = entry t q" using Cons.IH [OF plr m npr] .
      show ?thesis
      proof (cases "os_mkdir t1 ?p")
        case (Inr t2)
        with Cons.prems(2) Inl True m have "t' = t2" by simp
        with os_mkdir_frame [OF pl Inr Cons.prems(3)] e1 show ?thesis by simp
      next
        case i2: (Inl y)
        with Cons.prems(2) Inl True m have "t' = t1" by (simp split: if_splits)
        with e1 show ?thesis by simp
      qed
    qed
  qed
qed

lemma mkdir_frame:
  assumes "plain p" and "mkdir t p = Inr t'" and "\<not> prefix q p"
  shows "entry t' q = entry t q"
  using mkdir_rev_frame [of "rev p" t t' q] assms by (simp add: mkdir_def plain_def)

lemma entry_write_file_parallel: "q \<parallel> p \<Longrightarrow> entry (write_file t p) q = entry t q"
proof (induction t p arbitrary: q rule: write_file.induct)
  case (1 t)
  then show ?case by simp
next
  case (2 c cs)
  then show ?case by simp
next
  case (3 es c)
  obtain a as where q: "q = a # as"
    using "3.prems" by (cases q) simp_all
  have "a \<noteq> c"
    using "3.prems" unfolding q parallel_def by auto
  then show ?case unfolding q by (simp add: update_conv')
next
  case (4 es c c' cs)
  obtain a as where q: "q = a # as"
    using "4.prems" by (cases q) simp_all
  show ?case
  proof (cases "map_of es c")
    case None
    then show ?thesis by simp
  next
    case (Some m)
    show ?thesis
    proof (cases "a = c")
      case True
      have "as \<parallel> c' # cs"
        using "4.prems" unfolding q True by (rule parallel_cancel)
      from "4.IH" [OF Some this] show ?thesis
        unfolding q True by (simp add: Some update_conv')
    next
      case False
      then show ?thesis unfolding q by (simp add: Some update_conv')
    qed
  qed
qed

lemma write_frame_entry:
  assumes "q \<parallel> d"
  shows "entry (write_file t (d @ [f])) q = entry t q"
proof -
  have "q @ [] \<parallel> d @ [f]" using assms by (rule parallel_append)
  then have "q \<parallel> d @ [f]" by simp
  then show ?thesis by (rule entry_write_file_parallel)
qed

lemma example_tool_entry:
  assumes "q \<parallel> butlast pat"
  shows "entry (snd (example_tool t v pat)) q = entry t q"
  by (simp add: example_tool_def write_frame_entry [OF assms])

lemma example_tool_confined: "tool_confined example_env"
  unfolding tool_confined_def
proof (intro allI impI)
  fix t :: node and v pat :: path and q :: path
  assume "q \<parallel> butlast pat"
  then have "entry (snd (example_tool t v pat)) q = entry t q" by (rule example_tool_entry)
  then show "entry (snd (ffmpeg_extract example_env t v pat)) q = entry t q"
    by (simp add: example_env_def)
qed

lemma failing_tool_confined: "tool_confined failing_env"
  by (simp add: tool_confined_def failing_env_def)

lemma join_plain:
  "plain p \<Longrightarrow> c \<noteq> ''.'' \<Longrightarrow> c \<noteq> ''..'' \<Longrightarrow> join p c = p @ [c] \<and> plain (p @ [c])"
  by (simp add: join_def plain_def)

lemma video_dirs_plain:
  assumes "plain d" and "stem v \<noteq> ''.''" and "stem v \<noteq> ''..''"
  shows "frames_dir v d = d @ [stem v, ''all_frames'']"
    and "curation_dir v d = d @ [stem v, ''release_frames'']"
    and "plain (frames_dir v d)" and "plain (curation_dir v d)"
  using assms by (simp_all add: frames_dir_def curation_dir_def join_def plain_def)

lemma frame_count_entry:
  assumes "plain p" and "entry t' p = entry t p"
  shows "frame_count t' p = frame_count t p"
  using assms by (simp add: frame_count_def listdir_def lookup_plain)


section \<open>The idempotency check\<close>

lemma listdir_absent: "\<not> exists t p \<Longrightarrow> listdir t p = []"
  by (simp add: exists_def listdir_def)

lemma length_glob: "length (glob t p ''frame_*.jpg'') = frame_count t p"
  by (simp add: glob_def frame_count_def frame_name_def)

lemma glob_empty_iff: "(glob t p ''frame_*.jpg'' = []) = (frame_count t p = 0)"
  using length_glob [of t p] by (metis length_0_conv)

lemma frame_count_zero_iff: "(frame_count t p = 0) = (\<forall>n\<in>set (listdir t p). \<not> frame_name n)"
  by (simp add: frame_count_def filter_empty_conv)

lemma is_already_processed_eq:
  "is_already_processed v d w =
     ((0 < frame_count (fs w) (frames_dir v d), frame_count (fs w) (frames_dir v d)), w)"
proof (cases "exists (fs w) (frames_dir v d)")
  case True
  then show ?thesis
    by (auto simp: is_already_processed_def frames_dir_def Let_def length_glob glob_empty_iff)
next
  case False
  then have "frame_count (fs w) (frames_dir v d) = 0"
    by (simp add: frame_count_def listdir_absent)
  with False show ?thesis
    by (simp add: is_already_processed_def frames_dir_def Let_def)
qed

lemma frame_name_iff: "frame_name n = (\<exists>m. n = ''frame_'' @ m @ ''.jpg'')"
  by (simp only: frame_name_def fnmatch_frame)

text \<open>
  Claim C3. The check answers \<open>(False, 0)\<close> when the frame directory of the video is
  absent, and when no entry of it is named like a frame; it answers \<open>True\<close> with the
  number of such entries as soon as there is one; and it hands the world back as it
  got it: nothing is written and nothing is printed.
\<close>

theorem is_already_processed_check:
  "(\<not> exists (fs w) (frames_dir v d) \<longrightarrow> is_already_processed v d w = ((False, 0), w)) \<and>
   ((\<forall>n\<in>set (listdir (fs w) (frames_dir v d)). \<not> frame_name n) \<longrightarrow>
      is_already_processed v d w = ((False, 0), w)) \<and>
   ((\<exists>n\<in>set (listdir (fs w) (frames_dir v d)). frame_name n) \<longrightarrow>
      is_already_processed v d w = ((True, frame_count (fs w) (frames_dir v d)), w)) \<and>
   snd (is_already_processed v d w) = w"
proof -
  have a: "\<not> exists (fs w) (frames_dir v d) \<Longrightarrow> frame_count (fs w) (frames_dir v d) = 0"
    by (simp add: frame_count_def listdir_absent)
  have b: "(\<exists>n\<in>set (listdir (fs w) (frames_dir v d)). frame_name n) =
           (0 < frame_count (fs w) (frames_dir v d))"
    using frame_count_zero_iff [of "fs w" "frames_dir v d"] by auto
  show ?thesis
    using a b
    by (auto simp: is_already_processed_eq)
qed

theorem is_already_processed_check_witness:
  "\<not> exists example_fs (frames_dir [''vids'', ''game3.mp4''] [''vids'']) \<and>
   is_already_processed [''vids'', ''game3.mp4''] [''vids''] \<lparr>fs = example_fs, out = []\<rparr> =
     ((False, 0), \<lparr>fs = example_fs, out = []\<rparr>) \<and>
   exists example_fs (frames_dir [''vids'', ''game2.MP4''] [''vids'']) \<and>
   is_already_processed [''vids'', ''game2.MP4''] [''vids''] \<lparr>fs = example_fs, out = []\<rparr> =
     ((False, 0), \<lparr>fs = example_fs, out = []\<rparr>) \<and>
   is_already_processed [''vids'', ''game1.mp4''] [''vids''] \<lparr>fs = example_fs, out = []\<rparr> =
     ((True, 2), \<lparr>fs = example_fs, out = []\<rparr>)"
proof -
  let ?w = "\<lparr>fs = example_fs, out = []\<rparr>"
  have d3: "frames_dir [''vids'', ''game3.mp4''] [''vids''] = [''vids'', ''game3'', ''all_frames'']"
    by (simp add: frames_dir_def join_def stem_def name_def)
  have d2: "frames_dir [''vids'', ''game2.MP4''] [''vids''] = [''vids'', ''game2'', ''all_frames'']"
    by (simp add: frames_dir_def join_def stem_def name_def)
  have d1: "frames_dir [''vids'', ''game1.mp4''] [''vids''] = [''vids'', ''game1'', ''all_frames'']"
    by (simp add: frames_dir_def join_def stem_def name_def)
  have h3: "\<not> exists (fs ?w) (frames_dir [''vids'', ''game3.mp4''] [''vids''])"
    by (simp add: d3 exists_def example_fs_def lookup_def)
  have h2: "\<forall>n\<in>set (listdir (fs ?w) (frames_dir [''vids'', ''game2.MP4''] [''vids''])). \<not> frame_name n"
    by (simp add: d2 listdir_def example_fs_def lookup_def)
  have e2: "exists example_fs (frames_dir [''vids'', ''game2.MP4''] [''vids''])"
    by (simp add: d2 exists_def example_fs_def lookup_def)
  have h1: "\<exists>n\<in>set (listdir (fs ?w) (frames_dir [''vids'', ''game1.mp4''] [''vids''])). frame_name n"
    by (simp add: d1 listdir_def example_fs_def lookup_def frame_name_def)
  have c1: "frame_count (fs ?w) (frames_dir [''vids'', ''game1.mp4''] [''vids'']) = 2"
    by (simp add: d1 listdir_def example_fs_def lookup_def frame_name_def frame_count_def)
  show ?thesis
    using is_already_processed_check [of ?w "[''vids'', ''game3.mp4'']" "[''vids'']"]
      is_already_processed_check [of ?w "[''vids'', ''game2.MP4'']" "[''vids'']"]
      is_already_processed_check [of ?w "[''vids'', ''game1.mp4'']" "[''vids'']"]
      h3 h2 e2 h1 c1
    by simp
qed

text \<open>
  Claim C10. The check never answers \<open>True\<close> with a count of zero: its answer is
  \<open>(False, 0)\<close>, or \<open>(True, n)\<close> where \<open>n \<ge> 1\<close> is the number of entries of the frame
  directory that are named like a frame.
\<close>

theorem is_already_processed_never_true_zero:
  "fst (is_already_processed v d w) = (False, 0) \<or>
   (\<exists>n. 1 \<le> n \<and> n = frame_count (fs w) (frames_dir v d) \<and>
        fst (is_already_processed v d w) = (True, n))"
  by (auto simp: is_already_processed_eq)


section \<open>One extraction\<close>

lemma extract_frames_success:
  assumes "mkdir (fs w) out_dir = Inr t1"
    and "ffmpeg_extract e t1 v (out_dir @ [''frame_%04d.jpg'']) = (Returned 0 sout serr, t2)"
  shows "extract_frames e v out_dir w =
           (Inr (True, frame_count t2 out_dir, None),
            (print (Running (name v) (out_dir @ [''frame_%04d.jpg''])) (w\<lparr>fs := t1\<rparr>))\<lparr>fs := t2\<rparr>)"
  using assms by (simp add: extract_frames_def Let_def length_glob)

lemma extract_frames_True:
  assumes "extract_frames e v out_dir w = (Inr (True, n, msg), w')"
  shows "n = frame_count (fs w') out_dir \<and> msg = None"
  using assms
  by (auto simp: extract_frames_def Let_def length_glob print_def
      split: sum.splits prod.splits run_outcome.splits if_splits)

lemma extract_frames_failure:
  assumes "mkdir (fs w) out_dir = Inr t1"
    and "ffmpeg_extract e t1 v (out_dir @ [''frame_%04d.jpg'']) = (r, t2)"
    and "r = TimedOut \<or> (\<exists>rc sout serr. r = Returned rc sout serr \<and> rc \<noteq> 0)"
  shows "extract_frames e v out_dir w =
           (Inr (False, 0,
                 Some (case r of TimedOut \<Rightarrow> timeout_msg
                       | Returned rc sout serr \<Rightarrow> ''FFmpeg error: '' @ serr)),
            (print (Running (name v) (out_dir @ [''frame_%04d.jpg''])) (w\<lparr>fs := t1\<rparr>))\<lparr>fs := t2\<rparr>)"
  using assms by (auto simp: extract_frames_def Let_def)

lemma example_frames_dir:
  "mkdir example_fs [''vids'', ''game1'', ''all_frames''] = Inr example_fs"
  "mkdir example_fs [''vids'', ''game2'', ''all_frames''] = Inr example_fs"
  by code_simp+

text \<open>
  Claim C7. When the output directory could be made and the tool ends with return code
  0, whatever it wrote to its standard output and standard error, the call succeeds
  and the count it returns is the number of entries named like a frame that the output
  directory holds in the file system the tool left behind. Conversely every successful
  result carries that number, and no error message.
\<close>

theorem extract_frames_recount:
  "(mkdir (fs w) out_dir = Inr t1 \<and>
    ffmpeg_extract e t1 v (out_dir @ [''frame_%04d.jpg'']) = (Returned 0 sout serr, t2) \<longrightarrow>
      fst (extract_frames e v out_dir w) = Inr (True, frame_count t2 out_dir, None) \<and>
      fs (snd (extract_frames e v out_dir w)) = t2) \<and>
   (extract_frames e v out_dir w = (Inr (True, n, msg), w') \<longrightarrow>
      n = frame_count (fs w') out_dir \<and> msg = None)"
  using extract_frames_success [of w out_dir t1 e v sout serr t2]
    extract_frames_True [of e v out_dir w n msg w']
  by (simp add: print_def)

theorem extract_frames_recount_witness:
  "ffmpeg_extract example_env example_fs [''vids'', ''game1.mp4'']
     [''vids'', ''game1'', ''all_frames'', ''frame_%04d.jpg'']
     = (Returned 0 [] ''frame=   99'', example_fs) \<and>
   fst (extract_frames example_env [''vids'', ''game1.mp4''] [''vids'', ''game1'', ''all_frames'']
          \<lparr>fs = example_fs, out = []\<rparr>) = Inr (True, 2, None)"
proof -
  let ?w = "\<lparr>fs = example_fs, out = []\<rparr>"
  let ?v = "[''vids'', ''game1.mp4'']"
  let ?o = "[''vids'', ''game1'', ''all_frames'']"
  have m: "mkdir (fs ?w) ?o = Inr example_fs"
    by (simp add: example_frames_dir)
  have r: "ffmpeg_extract example_env example_fs ?v (?o @ [''frame_%04d.jpg''])
             = (Returned 0 [] ''frame=   99'', example_fs)"
    by (simp add: example_env_def example_tool_def name_def example_fs_def)
  have c: "frame_count example_fs ?o = 2"
    by (simp add: frame_count_def listdir_def example_fs_def lookup_def frame_name_def)
  show ?thesis
    using extract_frames_recount [where w = ?w and out_dir = ?o and ?t1.0 = example_fs
        and e = example_env and v = ?v and sout = "[]" and serr = "''frame=   99''"
        and ?t2.0 = example_fs] m r c
    by simp
qed

text \<open>
  Claim C9. When the output directory could be made and the tool runs into the timeout
  or ends with a return code other than 0, the result is a failure with frame count 0
  and an error message that is not empty; the file system is the one the tool left
  behind, whose frames are not counted.
\<close>

theorem extract_frames_failure_result:
  assumes "mkdir (fs w) out_dir = Inr t1"
    and "ffmpeg_extract e t1 v (out_dir @ [''frame_%04d.jpg'']) = (r, t2)"
    and "r = TimedOut \<or> (\<exists>rc sout serr. r = Returned rc sout serr \<and> rc \<noteq> 0)"
  shows "\<exists>msg. fst (extract_frames e v out_dir w) = Inr (False, 0, Some msg) \<and> msg \<noteq> [] \<and>
           fs (snd (extract_frames e v out_dir w)) = t2"
  using assms(3) extract_frames_failure [OF assms]
  by (auto simp: print_def timeout_msg_def)

theorem extract_frames_failure_result_witness:
  "frame_count (write_file example_fs [''vids'', ''game2'', ''all_frames'', ''frame_0001.jpg''])
     [''vids'', ''game2'', ''all_frames''] = 1 \<and>
   (\<exists>msg. fst (extract_frames example_env [''vids'', ''game2.MP4'']
                 [''vids'', ''game2'', ''all_frames''] \<lparr>fs = example_fs, out = []\<rparr>)
            = Inr (False, 0, Some msg) \<and> msg \<noteq> [] \<and>
          fs (snd (extract_frames example_env [''vids'', ''game2.MP4'']
                     [''vids'', ''game2'', ''all_frames''] \<lparr>fs = example_fs, out = []\<rparr>))
            = write_file example_fs [''vids'', ''game2'', ''all_frames'', ''frame_0001.jpg''])"
proof -
  let ?w = "\<lparr>fs = example_fs, out = []\<rparr>"
  let ?v = "[''vids'', ''game2.MP4'']"
  let ?o = "[''vids'', ''game2'', ''all_frames'']"
  let ?t = "write_file example_fs [''vids'', ''game2'', ''all_frames'', ''frame_0001.jpg'']"
  have m: "mkdir (fs ?w) ?o = Inr example_fs"
    by (simp add: example_frames_dir)
  have r: "ffmpeg_extract example_env example_fs ?v (?o @ [''frame_%04d.jpg'']) = (TimedOut, ?t)"
    by (simp add: example_env_def example_tool_def name_def)
  have c: "frame_count ?t ?o = 1"
    by (simp add: frame_count_def listdir_def example_fs_def lookup_def frame_name_def)
  have "TimedOut = TimedOut \<or> (\<exists>rc sout serr. TimedOut = Returned rc sout serr \<and> rc \<noteq> 0)"
    by simp
  from extract_frames_failure_result [OF m r this] c show ?thesis
    by simp
qed


section \<open>Discovery\<close>

lemma distinct_listdir: "distinct (listdir t p)"
  by (simp add: listdir_def split: option.splits node.splits)

lemma set_glob: "set (glob t p pat) = {p @ [n] | n. n \<in> set (listdir t p) \<and> fnmatch pat n}"
  by (auto simp: glob_def)

lemma distinct_glob: "distinct (glob t p pat)"
  by (simp add: glob_def distinct_map distinct_listdir inj_on_def)

lemma mp4_not_MP4: "suffix ''.mp4'' n \<Longrightarrow> \<not> suffix ''.MP4'' n"
proof
  assume "suffix ''.mp4'' n" and "suffix ''.MP4'' n"
  then obtain a b where "n = a @ ''.mp4''" and "n = b @ ''.MP4''"
    by (auto simp: suffix_def)
  then have "a @ ''.mp4'' = b @ ''.MP4''" by simp
  then show False by simp
qed

lemma set_get_video_files:
  "set (get_video_files t d) =
     {d @ [n] | n. n \<in> set (listdir t d) \<and> (suffix ''.mp4'' n \<or> suffix ''.MP4'' n)}"
  by (auto simp: get_video_files_def set_glob fnmatch_mp4 fnmatch_MP4)

lemma distinct_get_video_files: "distinct (get_video_files t d)"
proof -
  have "set (glob t d ''*.mp4'') \<inter> set (glob t d ''*.MP4'') = {}"
    using mp4_not_MP4 by (auto simp: set_glob fnmatch_mp4 fnmatch_MP4)
  then show ?thesis
    by (simp add: get_video_files_def distinct_glob)
qed

lemma sorted_get_video_files: "sorted (get_video_files t d)"
  by (simp add: get_video_files_def)

lemma get_video_files_listing:
  assumes "set (listdir t' d) = set (listdir t d)"
  shows "get_video_files t' d = get_video_files t d"
proof (rule sorted_distinct_set_unique)
  show "set (get_video_files t' d) = set (get_video_files t d)"
    using assms by (simp add: set_get_video_files)
qed (simp_all add: sorted_get_video_files distinct_get_video_files)

text \<open>
  Claim C4, as amended. Discovery returns the entries of the directory whose name ends
  in \<^verbatim>\<open>.mp4\<close> or in \<^verbatim>\<open>.MP4\<close>, these two spellings only, and nothing else; the
  result is sorted, holds no path twice, and depends on the set of names in the
  directory only, not on the order of the listing. For a directory holding
  \<^verbatim>\<open>game1.mp4\<close>, \<^verbatim>\<open>game2.MP4\<close> and \<^verbatim>\<open>notes.txt\<close> it is these two videos in that
  order.
\<close>

theorem get_video_files_discovery:
  "set (get_video_files t d) =
     {d @ [n] | n. n \<in> set (listdir t d) \<and> (suffix ''.mp4'' n \<or> suffix ''.MP4'' n)} \<and>
   sorted (get_video_files t d) \<and> distinct (get_video_files t d) \<and>
   (set (listdir t' d) = set (listdir t d) \<longrightarrow> get_video_files t' d = get_video_files t d) \<and>
   get_video_files claim_dir_fs [''vids''] = [[''vids'', ''game1.mp4''], [''vids'', ''game2.MP4'']]"
proof -
  have "get_video_files claim_dir_fs [''vids''] = [[''vids'', ''game1.mp4''], [''vids'', ''game2.MP4'']]"
    by (simp add: get_video_files_def glob_def listdir_def claim_dir_fs_def lookup_def)
  then show ?thesis
    using get_video_files_listing [of t' d t]
    by (simp add: set_get_video_files sorted_get_video_files distinct_get_video_files)
qed

theorem get_video_files_discovery_witness:
  "set (listdir claim_dir_fs' [''vids'']) = set (listdir claim_dir_fs [''vids'']) \<and>
   listdir claim_dir_fs' [''vids''] \<noteq> listdir claim_dir_fs [''vids''] \<and>
   get_video_files claim_dir_fs' [''vids''] = [[''vids'', ''game1.mp4''], [''vids'', ''game2.MP4'']]"
proof -
  have a: "set (listdir claim_dir_fs' [''vids'']) = set (listdir claim_dir_fs [''vids''])"
    by (auto simp: listdir_def claim_dir_fs_def lookup_def claim_dir_fs'_def)
  have b: "listdir claim_dir_fs' [''vids''] \<noteq> listdir claim_dir_fs [''vids'']"
    by (simp add: listdir_def claim_dir_fs_def lookup_def claim_dir_fs'_def)
  show ?thesis
    using get_video_files_discovery [of claim_dir_fs "[''vids'']" claim_dir_fs'] a b
    by simp
qed

text \<open>
  Claim C4, as stated, fails: \<^verbatim>\<open>game3.Mp4\<close> has the extension in mixed case, is in the
  directory, and is not discovered.
\<close>

theorem get_video_files_mixed_case_counterexample:
  "spec_mp4_extension ''game3.Mp4'' \<and>
   ''game3.Mp4'' \<in> set (listdir mixed_case_fs [''vids'']) \<and>
   [''vids'', ''game3.Mp4''] \<notin> set (get_video_files mixed_case_fs [''vids''])"
  by (simp add: spec_mp4_extension_def lower_ascii_def listdir_def mixed_case_fs_def lookup_def
      get_video_files_def glob_def)


section \<open>The loop over the videos\<close>

lemma fs_print [simp]: "fs (print x w) = fs w"
  by (simp add: print_def)

lemma out_print [simp]: "out (print x w) = out w @ [x]"
  by (simp add: print_def)

lemma extractions_append [simp]: "extractions (a @ b) = extractions a + extractions b"
  by (simp add: extractions_def)

lemma failures_append [simp]: "failures (a @ b) = failures a + failures b"
  by (simp add: failures_def)

lemma loop_body_skip:
  assumes "0 < frame_count (fs w) (frames_dir v d)" and "\<not> frc"
  shows "loop_body e d frc tot i v cs w =
           (Inr (cs\<lparr>skipped_count := skipped_count cs + 1\<rparr>),
            \<lparr>fs = fs w,
             out = out w @ [Processing i tot (name v),
                            Skipping (frame_count (fs w) (frames_dir v d)), Blank]\<rparr>)"
  using assms
  by (simp add: loop_body_def Let_def is_already_processed_eq print_def frames_dir_def)

lemma loop_body_unskipped:
  assumes "frame_count (fs w) (frames_dir v d) = 0 \<or> frc"
  shows "loop_body e d frc tot i v cs w =
     (let w2 = print (Processing i tot (name v)) w in
      case mkdir (fs w) (frames_dir v d) of
        Inl x \<Rightarrow> (Inl x, w2)
      | Inr t3 \<Rightarrow>
         (case mkdir t3 (curation_dir v d) of
            Inl x \<Rightarrow> (Inl x, w2\<lparr>fs := t3\<rparr>)
          | Inr t4 \<Rightarrow>
             (case extract_frames e v (frames_dir v d)
                     (print Extracting
                        (print (Created (stem v) ''release_frames'')
                           (print (Created (stem v) ''all_frames'') (w2\<lparr>fs := t4\<rparr>)))) of
                (Inl x, w6) \<Rightarrow> (Inl x, w6)
              | (Inr (success, n, error_msg), w6) \<Rightarrow>
                  if success then
                    (Inr (cs\<lparr>processed_count := processed_count cs + 1\<rparr>),
                     print Blank (print (Extracted n) w6))
                  else
                    (Inr (cs\<lparr>failed_count := failed_count cs + 1\<rparr>),
                     print Blank (print (ErrorLine error_msg) (print FailedToExtract w6))))))"
proof (cases "mkdir (fs w) (frames_dir v d)")
  case (Inl x)
  with assms show ?thesis
    by (auto simp: loop_body_def Let_def is_already_processed_eq frames_dir_def)
next
  case m1: (Inr t3)
  show ?thesis
  proof (cases "mkdir t3 (curation_dir v d)")
    case (Inl x)
    with assms m1 show ?thesis
      by (auto simp: loop_body_def Let_def is_already_processed_eq frames_dir_def
          curation_dir_def)
  next
    case m2: (Inr t4)
    with assms m1 show ?thesis
      by (auto simp: loop_body_def Let_def is_already_processed_eq frames_dir_def
          curation_dir_def)
  qed
qed

lemma visited_append [simp]: "visited (a @ b) = visited a @ visited b"
  by (simp add: visited_def)

lemma skips_append [simp]: "skips (a @ b) = skips a + skips b"
  by (simp add: skips_def)

lemma attempts_append [simp]: "attempts (a @ b) = attempts a + attempts b"
  by (simp add: attempts_def)

lemma started_facts [simp]:
  "visited (started i tot v d) = [(i, name v)]"
  "skips (started i tot v d) = 0"
  "attempts (started i tot v d) = 1"
  by (simp_all add: started_def visited_def skips_def attempts_def)

lemma skip_now_iff: "skip_now t d frc v = (0 < frame_count t (frames_dir v d) \<and> \<not> frc)"
  by (simp add: skip_now_def is_already_processed_eq)

lemma started_more [simp]:
  "extractions (started i tot v d) = 0" "failures (started i tot v d) = 0"
  by (simp_all add: started_def extractions_def failures_def)

lemma extract_frames_cases:
  "extract_frames e v out_dir w =
     (case mkdir (fs w) out_dir of
        Inl x \<Rightarrow> (Inl x, w)
      | Inr t1 \<Rightarrow>
          (case ffmpeg_extract e t1 v (out_dir @ [''frame_%04d.jpg'']) of
             (r, t2) \<Rightarrow>
               (case r of
                  Returned rc so se \<Rightarrow>
                    if rc = 0 then Inr (True, frame_count t2 out_dir, None)
                    else Inr (False, 0, Some (''FFmpeg error: '' @ se))
                | TimedOut \<Rightarrow> Inr (False, 0, Some timeout_msg)
                | NoSuchProgram \<Rightarrow> Inl FileNotFoundError
                | Undecodable \<Rightarrow> Inl UnicodeDecodeError,
                \<lparr>fs = t2, out = out w @ [Running (name v) (out_dir @ [''frame_%04d.jpg''])]\<rparr>)))"
proof (cases "mkdir (fs w) out_dir")
  case (Inl x)
  then show ?thesis by (simp add: extract_frames_def)
next
  case (Inr t1)
  obtain r t2 where r: "ffmpeg_extract e t1 v (out_dir @ [''frame_%04d.jpg'']) = (r, t2)"
    by (cases "ffmpeg_extract e t1 v (out_dir @ [''frame_%04d.jpg''])")
  show ?thesis
    by (cases r) (simp_all add: extract_frames_def Let_def Inr r length_glob print_def)
qed

lemma loop_body_run:
  assumes ns: "\<not> skip_now (fs w) d frc v"
    and m1: "mkdir (fs w) (frames_dir v d) = Inr t3"
    and m2: "mkdir t3 (curation_dir v d) = Inr t4"
    and m3: "mkdir t4 (frames_dir v d) = Inr t5"
    and r: "ffmpeg_extract e t5 v (output_pattern v d) = (r, t6)"
  shows "loop_body e d frc tot i v cs w =
     (if tool_ok r then Inr (cs\<lparr>processed_count := processed_count cs + 1\<rparr>)
      else if tool_failed r then Inr (cs\<lparr>failed_count := failed_count cs + 1\<rparr>)
      else Inl (if r = NoSuchProgram then FileNotFoundError else UnicodeDecodeError),
      \<lparr>fs = t6, out = out w @ started i tot v d @ tool_tail r t6 (frames_dir v d)\<rparr>)"
proof -
  from ns have na: "frame_count (fs w) (frames_dir v d) = 0 \<or> frc"
    by (auto simp: skip_now_iff)
  let ?w5 = "print Extracting
               (print (Created (stem v) ''release_frames'')
                  (print (Created (stem v) ''all_frames'')
                     ((print (Processing i tot (name v)) w)\<lparr>fs := t4\<rparr>)))"
  have f5: "fs ?w5 = t4" by simp
  have o5: "out ?w5 = out w @ [Processing i tot (name v), Created (stem v) ''all_frames'',
                               Created (stem v) ''release_frames'', Extracting]"
    by simp
  have r': "ffmpeg_extract e t5 v (frames_dir v d @ [''frame_%04d.jpg'']) = (r, t6)"
    using r by (simp add: output_pattern_def)
  have ex: "extract_frames e v (frames_dir v d) ?w5 =
      (case r of
         Returned rc so se \<Rightarrow>
           if rc = 0 then Inr (True, frame_count t6 (frames_dir v d), None)
           else Inr (False, 0, Some (''FFmpeg error: '' @ se))
       | TimedOut \<Rightarrow> Inr (False, 0, Some timeout_msg)
       | NoSuchProgram \<Rightarrow> Inl FileNotFoundError
       | Undecodable \<Rightarrow> Inl UnicodeDecodeError,
       \<lparr>fs = t6, out = out w @ [Processing i tot (name v), Created (stem v) ''all_frames'',
                               Created (stem v) ''release_frames'', Extracting,
                               Running (name v) (output_pattern v d)]\<rparr>)"
    unfolding extract_frames_cases f5 o5 by (simp add: m3 r' output_pattern_def)
  have lb: "loop_body e d frc tot i v cs w =
      (case extract_frames e v (frames_dir v d) ?w5 of
         (Inl x, w6) \<Rightarrow> (Inl x, w6)
       | (Inr (success, n, error_msg), w6) \<Rightarrow>
           if success then
             (Inr (cs\<lparr>processed_count := processed_count cs + 1\<rparr>),
              print Blank (print (Extracted n) w6))
           else
             (Inr (cs\<lparr>failed_count := failed_count cs + 1\<rparr>),
              print Blank (print (ErrorLine error_msg) (print FailedToExtract w6))))"
    by (simp add: loop_body_unskipped [OF na] Let_def m1 m2)
  show ?thesis
    unfolding lb ex
    by (cases r)
      (simp_all add: started_def print_def tool_ok_def tool_failed_def tool_tail_def)
qed

lemma loop_body_Inr_cases:
  assumes lb: "loop_body e d frc tot i v cs w = (Inr cs', w')"
  shows "(skip_now (fs w) d frc v \<and> cs' = cs\<lparr>skipped_count := skipped_count cs + 1\<rparr> \<and>
           w' = \<lparr>fs = fs w, out = out w @ [Processing i tot (name v),
                     Skipping (frame_count (fs w) (frames_dir v d)), Blank]\<rparr>) \<or>
         (\<not> skip_now (fs w) d frc v \<and>
          (\<exists>t3 t4 t5 r t6.
             mkdir (fs w) (frames_dir v d) = Inr t3 \<and> mkdir t3 (curation_dir v d) = Inr t4 \<and>
             mkdir t4 (frames_dir v d) = Inr t5 \<and>
             ffmpeg_extract e t5 v (output_pattern v d) = (r, t6) \<and>
             (tool_ok r \<or> tool_failed r) \<and>
             cs' = (if tool_ok r then cs\<lparr>processed_count := processed_count cs + 1\<rparr>
                    else cs\<lparr>failed_count := failed_count cs + 1\<rparr>) \<and>
             w' = \<lparr>fs = t6, out = out w @ started i tot v d @
                                      tool_tail r t6 (frames_dir v d)\<rparr>))"
proof (cases "skip_now (fs w) d frc v")
  case True
  then have "0 < frame_count (fs w) (frames_dir v d)" "\<not> frc"
    by (simp_all add: skip_now_iff)
  from loop_body_skip [OF this, of e tot i cs] lb True show ?thesis by simp
next
  case False
  then have na: "frame_count (fs w) (frames_dir v d) = 0 \<or> frc"
    by (auto simp: skip_now_iff)
  from lb obtain t3 where m1: "mkdir (fs w) (frames_dir v d) = Inr t3"
    unfolding loop_body_unskipped [OF na] Let_def
    by (cases "mkdir (fs w) (frames_dir v d)") simp_all
  from lb m1 obtain t4 where m2: "mkdir t3 (curation_dir v d) = Inr t4"
    unfolding loop_body_unskipped [OF na] Let_def
    by (cases "mkdir t3 (curation_dir v d)") simp_all
  have m3: "\<exists>t5. mkdir t4 (frames_dir v d) = Inr t5"
  proof (cases "mkdir t4 (frames_dir v d)")
    case (Inl x)
    with lb m1 m2 show ?thesis
      unfolding loop_body_unskipped [OF na] Let_def extract_frames_cases by simp
  next
    case (Inr t5)
    then show ?thesis by blast
  qed
  then obtain t5 where m3: "mkdir t4 (frames_dir v d) = Inr t5" ..
  obtain r t6 where r: "ffmpeg_extract e t5 v (output_pattern v d) = (r, t6)"
    by (cases "ffmpeg_extract e t5 v (output_pattern v d)")
  note eq = loop_body_run [OF False m1 m2 m3 r, of tot i cs]
  from lb have ok: "tool_ok r \<or> tool_failed r"
    unfolding eq by (simp split: if_splits)
  from lb ok have "cs' = (if tool_ok r then cs\<lparr>processed_count := processed_count cs + 1\<rparr>
                    else cs\<lparr>failed_count := failed_count cs + 1\<rparr>)"
    and "w' = \<lparr>fs = t6, out = out w @ started i tot v d @ tool_tail r t6 (frames_dir v d)\<rparr>"
    unfolding eq by (auto split: if_splits)
  with False m1 m2 m3 r ok show ?thesis by blast
qed

lemma tool_tail_counts:
  "extractions (tool_tail r t p) = (if tool_ok r then 1 else 0)"
  "failures (tool_tail r t p) = (if tool_failed r then 1 else 0)"
  "skips (tool_tail r t p) = 0"
  "attempts (tool_tail r t p) = 0"
  "visited (tool_tail r t p) = []"
  by (cases r; simp add: tool_tail_def tool_ok_def tool_failed_def extractions_def failures_def
        skips_def attempts_def visited_def)+

lemma started_counts [simp]:
  "extractions (started i tot v d) = 0"
  "failures (started i tot v d) = 0"
  by (simp_all add: started_def extractions_def failures_def)

lemma tool_ok_not_failed: "tool_ok r \<Longrightarrow> \<not> tool_failed r"
  by (cases r) (simp_all add: tool_ok_def tool_failed_def)

lemma incremented_one_sum:
  "incremented_one cs cs' \<Longrightarrow>
     processed_count cs' + skipped_count cs' + failed_count cs' =
     processed_count cs + skipped_count cs + failed_count cs + 1"
  by (auto simp: incremented_one_def)

lemma loop_body_Inr_trace:
  assumes lb: "loop_body e d frc tot i v cs w = (Inr cs', w')"
  shows "\<exists>evs. out w' = out w @ evs \<and>
     processed_count cs' = processed_count cs + extractions evs \<and>
     skipped_count cs' = skipped_count cs + skips evs \<and>
     failed_count cs' = failed_count cs + failures evs \<and>
     visited evs = [(i, name v)] \<and>
     skips evs = (if skip_now (fs w) d frc v then 1 else 0) \<and>
     attempts evs = (if skip_now (fs w) d frc v then 0 else 1) \<and>
     extractions evs + failures evs = attempts evs \<and>
     incremented_one cs cs'"
proof (cases "skip_now (fs w) d frc v")
  case True
  with loop_body_Inr_cases [OF lb]
  have cs': "cs' = cs\<lparr>skipped_count := skipped_count cs + 1\<rparr>"
    and w': "w' = \<lparr>fs = fs w, out = out w @ [Processing i tot (name v),
                     Skipping (frame_count (fs w) (frames_dir v d)), Blank]\<rparr>"
    by simp_all
  let ?evs = "[Processing i tot (name v), Skipping (frame_count (fs w) (frames_dir v d)), Blank]"
  have o: "out w' = out w @ ?evs" by (simp add: w')
  have c: "extractions ?evs = 0" "skips ?evs = 1" "failures ?evs = 0"
      "attempts ?evs = 0" "visited ?evs = [(i, name v)]"
    by (simp_all add: extractions_def skips_def failures_def attempts_def visited_def)
  show ?thesis
    apply (rule exI [of _ ?evs])
    unfolding c using o True cs' by (simp add: incremented_one_def)
next
  case False
  with loop_body_Inr_cases [OF lb] obtain r t6 where
    ok: "tool_ok r \<or> tool_failed r"
    and cs': "cs' = (if tool_ok r then cs\<lparr>processed_count := processed_count cs + 1\<rparr>
                    else cs\<lparr>failed_count := failed_count cs + 1\<rparr>)"
    and w': "w' = \<lparr>fs = t6, out = out w @ started i tot v d @
                                      tool_tail r t6 (frames_dir v d)\<rparr>"
    by auto
  let ?evs = "started i tot v d @ tool_tail r t6 (frames_dir v d)"
  have o: "out w' = out w @ ?evs" by (simp add: w')
  show ?thesis
    apply (rule exI [of _ ?evs])
    using o False ok cs' tool_ok_not_failed [of r]
    by (auto simp: tool_tail_counts incremented_one_def)
qed

lemma loop_Inr_trace:
  "loop e d frc tot i vs cs w = (Inr cs', w') \<Longrightarrow>
   \<exists>evs. out w' = out w @ evs \<and>
     processed_count cs' = processed_count cs + extractions evs \<and>
     skipped_count cs' = skipped_count cs + skips evs \<and>
     failed_count cs' = failed_count cs + failures evs \<and>
     visited evs = enumerate i (map name vs) \<and>
     skips evs + attempts evs = length vs \<and>
     extractions evs + failures evs = attempts evs \<and>
     (frc \<longrightarrow> skips evs = 0)"
proof (induction vs arbitrary: i cs w)
  case Nil
  then show ?case
    by (simp add: extractions_def skips_def failures_def attempts_def visited_def)
next
  case (Cons v vs)
  from Cons.prems obtain cs1 w1 where lb: "loop_body e d frc tot i v cs w = (Inr cs1, w1)"
    and lp: "loop e d frc tot (i + 1) vs cs1 w1 = (Inr cs', w')"
    by (auto split: prod.splits sum.splits)
  from loop_body_Inr_trace [OF lb] obtain ev1 where
    a: "out w1 = out w @ ev1"
      "processed_count cs1 = processed_count cs + extractions ev1"
      "skipped_count cs1 = skipped_count cs + skips ev1"
      "failed_count cs1 = failed_count cs + failures ev1"
      "visited ev1 = [(i, name v)]"
      "skips ev1 = (if skip_now (fs w) d frc v then 1 else 0)"
      "attempts ev1 = (if skip_now (fs w) d frc v then 0 else 1)"
      "extractions ev1 + failures ev1 = attempts ev1"
    by blast
  from Cons.IH [OF lp] obtain ev2 where
    b: "out w' = out w1 @ ev2"
      "processed_count cs' = processed_count cs1 + extractions ev2"
      "skipped_count cs' = skipped_count cs1 + skips ev2"
      "failed_count cs' = failed_count cs1 + failures ev2"
      "visited ev2 = enumerate (i + 1) (map name vs)"
      "skips ev2 + attempts ev2 = length vs"
      "extractions ev2 + failures ev2 = attempts ev2"
      "frc \<longrightarrow> skips ev2 = 0"
    by blast
  have nf: "frc \<Longrightarrow> \<not> skip_now (fs w) d frc v" by (simp add: skip_now_iff)
  show ?case
    using a b nf by (intro exI [of _ "ev1 @ ev2"]) auto
qed

lemma videos_exists: "get_video_files t d \<noteq> [] \<Longrightarrow> exists t d"
  by (auto simp: get_video_files_def glob_def listdir_def exists_def split: option.splits)

lemma process_videos_Inr_trace:
  assumes pv: "process_videos e d frc w = (Inr u, w')"
    and ne: "get_video_files (fs w) d \<noteq> []"
  shows "\<exists>evs. out w' = out w @ [Found (length (get_video_files (fs w) d))] @ evs @
                    [Summary (extractions evs) (skips evs) (failures evs)
                       (length (get_video_files (fs w) d))] \<and>
     visited evs = enumerate 1 (map name (get_video_files (fs w) d)) \<and>
     skips evs + attempts evs = length (get_video_files (fs w) d) \<and>
     extractions evs + failures evs = attempts evs \<and>
     (frc \<longrightarrow> skips evs = 0)"
proof -
  let ?vs = "get_video_files (fs w) d"
  let ?c0 = "\<lparr>processed_count = 0, skipped_count = 0, failed_count = 0\<rparr>"
  from pv ne videos_exists [OF ne] obtain cs w1 where
    lp: "loop e d frc (length ?vs) 1 ?vs ?c0 (print (Found (length ?vs)) w) = (Inr cs, w1)"
    and w': "w' = print (Summary (processed_count cs) (skipped_count cs) (failed_count cs)
                          (length ?vs)) w1"
    by (auto simp: process_videos_def Let_def split: prod.splits sum.splits)
  from loop_Inr_trace [OF lp] obtain evs where
    b: "out w1 = out (print (Found (length ?vs)) w) @ evs"
      "processed_count cs = extractions evs"
      "skipped_count cs = skips evs"
      "failed_count cs = failures evs"
      "visited evs = enumerate 1 (map name ?vs)"
      "skips evs + attempts evs = length ?vs"
      "extractions evs + failures evs = attempts evs"
      "frc \<longrightarrow> skips evs = 0"
    by auto
  show ?thesis
    using b unfolding w' by (intro exI [of _ evs]) simp
qed


section \<open>A whole run\<close>


lemma timeout_msg_distinct: "timeout_msg \<noteq> ''FFmpeg error: '' @ se"
  by (simp add: timeout_msg_def)

lemma loop_failed_step:
  assumes ns: "\<not> skip_now (fs w) d frc v"
    and m1: "mkdir (fs w) (frames_dir v d) = Inr t3"
    and m2: "mkdir t3 (curation_dir v d) = Inr t4"
    and m3: "mkdir t4 (frames_dir v d) = Inr t5"
    and r: "ffmpeg_extract e t5 v (output_pattern v d) = (r, t6)"
    and f: "tool_failed r"
  shows "loop e d frc tot i (v # rest) cs w =
     loop e d frc tot (i + 1) rest (cs\<lparr>failed_count := failed_count cs + 1\<rparr>)
       \<lparr>fs = t6, out = out w @ started i tot v d @ tool_tail r t6 (frames_dir v d)\<rparr>"
  using f tool_ok_not_failed [of r]
  by (auto simp: loop_body_run [OF ns m1 m2 m3 r])

text \<open>
  Claim C6. A timeout gives the failure result with the timeout message, a return code
  other than 0 gives the failure result with the tool's standard error behind the
  prefix \<^verbatim>\<open>FFmpeg error:\<close>, and the two messages are never equal. In the loop, a video
  that is not skipped, whose directories could be made and whose extraction ends either
  way, has the line of a failure and its message printed, and the loop goes on with the
  next video and with the failed counter raised by one, the other two counters as they
  were. When the loop reaches the end of the list, each counter has grown by the number
  of lines of its kind that the loop printed: the failed counter by the number of
  failure lines. A run that returns, on a directory with at least one video, prints the
  summary last, with those three numbers counted from zero, and with the number of
  discovered videos as its total, which is their sum.
\<close>

theorem timeout_and_tool_error:
  "(mkdir (fs w) out_dir = Inr t1 \<and>
    ffmpeg_extract e t1 v (out_dir @ [''frame_%04d.jpg'']) = (TimedOut, t2) \<longrightarrow>
      fst (extract_frames e v out_dir w) = Inr (False, 0, Some timeout_msg)) \<and>
   (mkdir (fs w') out_dir' = Inr t1' \<and>
    ffmpeg_extract e t1' v' (out_dir' @ [''frame_%04d.jpg'']) = (Returned rc so se, t2') \<and>
    rc \<noteq> 0 \<longrightarrow>
      fst (extract_frames e v' out_dir' w') = Inr (False, 0, Some (''FFmpeg error: '' @ se))) \<and>
   timeout_msg \<noteq> ''FFmpeg error: '' @ se \<and>
   (\<not> skip_now (fs wa) d frc va \<and> mkdir (fs wa) (frames_dir va d) = Inr t3 \<and>
    mkdir t3 (curation_dir va d) = Inr t4 \<and> mkdir t4 (frames_dir va d) = Inr t5 \<and>
    ffmpeg_extract e t5 va (output_pattern va d) = (TimedOut, t6) \<longrightarrow>
      loop e d frc tot i (va # rest) cs wa =
        loop e d frc tot (i + 1) rest (cs\<lparr>failed_count := failed_count cs + 1\<rparr>)
          \<lparr>fs = t6, out = out wa @ started i tot va d @
                          [FailedToExtract, ErrorLine (Some timeout_msg), Blank]\<rparr>) \<and>
   (\<not> skip_now (fs wa') d frc va' \<and> mkdir (fs wa') (frames_dir va' d) = Inr t3' \<and>
    mkdir t3' (curation_dir va' d) = Inr t4' \<and> mkdir t4' (frames_dir va' d) = Inr t5' \<and>
    ffmpeg_extract e t5' va' (output_pattern va' d) = (Returned rc' so' se', t6') \<and>
    rc' \<noteq> 0 \<longrightarrow>
      loop e d frc tot i (va' # rest) cs wa' =
        loop e d frc tot (i + 1) rest (cs\<lparr>failed_count := failed_count cs + 1\<rparr>)
          \<lparr>fs = t6', out = out wa' @ started i tot va' d @
                          [FailedToExtract, ErrorLine (Some (''FFmpeg error: '' @ se')), Blank]\<rparr>) \<and>
   (loop e d frc tot i vids cs wb = (Inr cs', wc) \<longrightarrow>
      (\<exists>evs. out wc = out wb @ evs \<and>
         processed_count cs' = processed_count cs + extractions evs \<and>
         skipped_count cs' = skipped_count cs + skips evs \<and>
         failed_count cs' = failed_count cs + failures evs)) \<and>
   (process_videos e d frc wd = (Inr u, we) \<and> get_video_files (fs wd) d \<noteq> [] \<longrightarrow>
      (\<exists>evs. out we = out wd @ [Found (length (get_video_files (fs wd) d))] @ evs @
                 [Summary (extractions evs) (skips evs) (failures evs)
                    (length (get_video_files (fs wd) d))] \<and>
         extractions evs + skips evs + failures evs = length (get_video_files (fs wd) d)))"
proof (intro conjI impI)
  assume "mkdir (fs w) out_dir = Inr t1 \<and>
    ffmpeg_extract e t1 v (out_dir @ [''frame_%04d.jpg'']) = (TimedOut, t2)"
  then show "fst (extract_frames e v out_dir w) = Inr (False, 0, Some timeout_msg)"
    using extract_frames_failure [of w out_dir t1 e v TimedOut t2] by simp
next
  assume "mkdir (fs w') out_dir' = Inr t1' \<and>
    ffmpeg_extract e t1' v' (out_dir' @ [''frame_%04d.jpg'']) = (Returned rc so se, t2') \<and>
    rc \<noteq> 0"
  then show "fst (extract_frames e v' out_dir' w') =
      Inr (False, 0, Some (''FFmpeg error: '' @ se))"
    using extract_frames_failure [of w' out_dir' t1' e v' "Returned rc so se" t2'] by simp
next
  show "timeout_msg \<noteq> ''FFmpeg error: '' @ se" by (rule timeout_msg_distinct)
next
  assume a: "\<not> skip_now (fs wa) d frc va \<and> mkdir (fs wa) (frames_dir va d) = Inr t3 \<and>
    mkdir t3 (curation_dir va d) = Inr t4 \<and> mkdir t4 (frames_dir va d) = Inr t5 \<and>
    ffmpeg_extract e t5 va (output_pattern va d) = (TimedOut, t6)"
  have f: "tool_failed TimedOut" by (simp add: tool_failed_def)
  from a loop_failed_step [of wa d frc va t3 t4 t5 e TimedOut t6, OF _ _ _ _ _ f]
  show "loop e d frc tot i (va # rest) cs wa =
        loop e d frc tot (i + 1) rest (cs\<lparr>failed_count := failed_count cs + 1\<rparr>)
          \<lparr>fs = t6, out = out wa @ started i tot va d @
                          [FailedToExtract, ErrorLine (Some timeout_msg), Blank]\<rparr>"
    by (simp add: tool_tail_def)
next
  assume a: "\<not> skip_now (fs wa') d frc va' \<and> mkdir (fs wa') (frames_dir va' d) = Inr t3' \<and>
    mkdir t3' (curation_dir va' d) = Inr t4' \<and> mkdir t4' (frames_dir va' d) = Inr t5' \<and>
    ffmpeg_extract e t5' va' (output_pattern va' d) = (Returned rc' so' se', t6') \<and>
    rc' \<noteq> 0"
  then have f: "tool_failed (Returned rc' so' se')" by (simp add: tool_failed_def)
  from a loop_failed_step [of wa' d frc va' t3' t4' t5' e "Returned rc' so' se'" t6', OF _ _ _ _ _ f]
  show "loop e d frc tot i (va' # rest) cs wa' =
        loop e d frc tot (i + 1) rest (cs\<lparr>failed_count := failed_count cs + 1\<rparr>)
          \<lparr>fs = t6', out = out wa' @ started i tot va' d @
                          [FailedToExtract, ErrorLine (Some (''FFmpeg error: '' @ se')), Blank]\<rparr>"
    by (simp add: tool_tail_def)
next
  assume "loop e d frc tot i vids cs wb = (Inr cs', wc)"
  from loop_Inr_trace [OF this]
  show "\<exists>evs. out wc = out wb @ evs \<and>
         processed_count cs' = processed_count cs + extractions evs \<and>
         skipped_count cs' = skipped_count cs + skips evs \<and>
         failed_count cs' = failed_count cs + failures evs"
    by blast
next
  assume a: "process_videos e d frc wd = (Inr u, we) \<and> get_video_files (fs wd) d \<noteq> []"
  from process_videos_Inr_trace [of e d frc wd u we] a
  obtain evs where
    o: "out we = out wd @ [Found (length (get_video_files (fs wd) d))] @ evs @
                 [Summary (extractions evs) (skips evs) (failures evs)
                    (length (get_video_files (fs wd) d))]"
    and s: "skips evs + attempts evs = length (get_video_files (fs wd) d)"
      "extractions evs + failures evs = attempts evs"
    by blast
  from s have "extractions evs + skips evs + failures evs = length (get_video_files (fs wd) d)"
    by simp
  with o show "\<exists>evs. out we = out wd @ [Found (length (get_video_files (fs wd) d))] @ evs @
                 [Summary (extractions evs) (skips evs) (failures evs)
                    (length (get_video_files (fs wd) d))] \<and>
         extractions evs + skips evs + failures evs = length (get_video_files (fs wd) d)"
    by blast
qed

lemma batch_videos: "get_video_files batch_fs [''vids''] =
  [[''vids'', ''bad.mp4''], [''vids'', ''game1.mp4''], [''vids'', ''game2.MP4''], [''vids'', ''zoom.mp4'']]"
  by code_simp

theorem timeout_and_tool_error_witness:
  "fst (extract_frames example_env [''vids'', ''game2.MP4''] [''vids'', ''game2'', ''all_frames'']
          \<lparr>fs = example_fs, out = []\<rparr>) = Inr (False, 0, Some timeout_msg) \<and>
   fst (extract_frames example_env [''vids'', ''bad.mp4''] [''vids'', ''game1'', ''all_frames'']
          \<lparr>fs = example_fs, out = []\<rparr>)
     = Inr (False, 0, Some ''FFmpeg error: Invalid data found'') \<and>
   timeout_msg \<noteq> ''FFmpeg error: Invalid data found'' \<and>
   fst (loop example_env [''vids''] False 4 3 [[''vids'', ''game2.MP4'']]
          \<lparr>processed_count = 0, skipped_count = 1, failed_count = 1\<rparr>
          \<lparr>fs = batch_fs, out = []\<rparr>)
     = Inr \<lparr>processed_count = 0, skipped_count = 1, failed_count = 2\<rparr> \<and>
   fst (loop example_env [''vids''] False 4 3 [[''vids'', ''bad.mp4'']]
          \<lparr>processed_count = 0, skipped_count = 1, failed_count = 1\<rparr>
          \<lparr>fs = batch_fs, out = []\<rparr>)
     = Inr \<lparr>processed_count = 0, skipped_count = 1, failed_count = 2\<rparr> \<and>
   (\<exists>evs. out (snd (loop example_env [''vids''] False 4 1 (get_video_files batch_fs [''vids''])
                       \<lparr>processed_count = 0, skipped_count = 0, failed_count = 0\<rparr>
                       \<lparr>fs = batch_fs, out = []\<rparr>)) = evs \<and>
          extractions evs = 1 \<and> skips evs = 1 \<and> failures evs = 2) \<and>
   (\<exists>evs. out (snd (process_videos example_env [''vids''] False \<lparr>fs = batch_fs, out = []\<rparr>))
            = [Found 4] @ evs @ [Summary (extractions evs) (skips evs) (failures evs) 4] \<and>
          extractions evs + skips evs + failures evs = 4)"
proof -
  let ?w = "\<lparr>fs = example_fs, out = []\<rparr>"
  let ?wb = "\<lparr>fs = batch_fs, out = []\<rparr>"
  let ?d = "[''vids'']"
  let ?v = "[''vids'', ''game2.MP4'']"
  let ?v' = "[''vids'', ''bad.mp4'']"
  let ?o = "[''vids'', ''game2'', ''all_frames'']"
  let ?o' = "[''vids'', ''game1'', ''all_frames'']"
  let ?c = "\<lparr>processed_count = 0, skipped_count = 1, failed_count = 1\<rparr>"
  let ?z = "\<lparr>processed_count = 0, skipped_count = 0, failed_count = 0\<rparr>"
  let ?t3 = "projr (mkdir batch_fs (frames_dir ?v ?d))"
  let ?t4 = "projr (mkdir ?t3 (curation_dir ?v ?d))"
  let ?t6 = "snd (ffmpeg_extract example_env ?t4 ?v (output_pattern ?v ?d))"
  let ?s3 = "projr (mkdir batch_fs (frames_dir ?v' ?d))"
  let ?s4 = "projr (mkdir ?s3 (curation_dir ?v' ?d))"
  let ?vs = "get_video_files batch_fs ?d"
  have a1: "mkdir (fs ?w) ?o = Inr example_fs" by (simp add: example_frames_dir)
  have a2: "ffmpeg_extract example_env example_fs ?v (?o @ [''frame_%04d.jpg'']) =
      (TimedOut, write_file example_fs (?o @ [''frame_0001.jpg'']))"
    by (simp add: example_env_def example_tool_def name_def)
  have b1: "mkdir (fs ?w) ?o' = Inr example_fs" by (simp add: example_frames_dir)
  have b2: "ffmpeg_extract example_env example_fs ?v' (?o' @ [''frame_%04d.jpg'']) =
      (Returned 1 [] ''Invalid data found'', example_fs)"
    by (simp add: example_env_def example_tool_def name_def)
  have b3: "(1::int) \<noteq> 0" by simp
  have c1: "\<not> skip_now (fs ?wb) ?d False ?v" by code_simp
  have c2: "mkdir (fs ?wb) (frames_dir ?v ?d) = Inr ?t3" by code_simp
  have c3: "mkdir ?t3 (curation_dir ?v ?d) = Inr ?t4" by code_simp
  have c4: "mkdir ?t4 (frames_dir ?v ?d) = Inr ?t4" by code_simp
  have c5: "ffmpeg_extract example_env ?t4 ?v (output_pattern ?v ?d) = (TimedOut, ?t6)"
    by code_simp
  have d1: "\<not> skip_now (fs ?wb) ?d False ?v'" by code_simp
  have d2: "mkdir (fs ?wb) (frames_dir ?v' ?d) = Inr ?s3" by code_simp
  have d3: "mkdir ?s3 (curation_dir ?v' ?d) = Inr ?s4" by code_simp
  have d4: "mkdir ?s4 (frames_dir ?v' ?d) = Inr ?s4" by code_simp
  have d5: "ffmpeg_extract example_env ?s4 ?v' (output_pattern ?v' ?d) =
      (Returned 1 [] ''Invalid data found'', ?s4)"
    by code_simp
  have e1: "loop example_env ?d False 4 1 ?vs ?z ?wb =
      (Inr \<lparr>processed_count = 1, skipped_count = 1, failed_count = 2\<rparr>,
       snd (loop example_env ?d False 4 1 ?vs ?z ?wb))"
    by code_simp
  have f1: "process_videos example_env ?d False ?wb =
      (Inr (), snd (process_videos example_env ?d False ?wb))"
    by code_simp
  have f2: "get_video_files (fs ?wb) ?d \<noteq> []" by (simp add: batch_videos)
  have f3: "length (get_video_files (fs ?wb) ?d) = 4" by (simp add: batch_videos)
  note t = timeout_and_tool_error [where w = ?w and out_dir = ?o and ?t1.0 = example_fs
      and e = example_env and v = ?v
      and ?t2.0 = "write_file example_fs (?o @ [''frame_0001.jpg''])"
      and w' = ?w and out_dir' = ?o' and t1' = example_fs and v' = ?v' and rc = 1
      and so = "[]" and se = "''Invalid data found''" and t2' = example_fs
      and wa = ?wb and d = ?d and frc = False and va = ?v and ?t3.0 = ?t3 and ?t4.0 = ?t4
      and ?t5.0 = ?t4 and ?t6.0 = ?t6 and tot = 4 and i = 3 and rest = "[]" and cs = ?c
      and wa' = ?wb and va' = ?v' and t3' = ?s3 and t4' = ?s4 and t5' = ?s4 and rc' = 1
      and so' = "[]" and se' = "''Invalid data found''" and t6' = ?s4
      ]
  note t' = timeout_and_tool_error [where e = example_env and d = ?d and frc = False
      and tot = 4 and i = 1 and cs = ?z and vids = ?vs and wb = ?wb
      and cs' = "\<lparr>processed_count = 1, skipped_count = 1, failed_count = 2\<rparr>"
      and wc = "snd (loop example_env ?d False 4 1 ?vs ?z ?wb)"
      and wd = ?wb and u = "()"
      and we = "snd (process_videos example_env ?d False ?wb)"]
  note t1 = t [THEN conjunct1, THEN mp, OF conjI [OF a1 a2]]
  note t2 = t [THEN conjunct2, THEN conjunct1, THEN mp, OF conjI [OF b1 conjI [OF b2 b3]]]
  note t3 = t [THEN conjunct2, THEN conjunct2, THEN conjunct1]
  note t4 = t [THEN conjunct2, THEN conjunct2, THEN conjunct2, THEN conjunct1, THEN mp,
      OF conjI [OF c1 conjI [OF c2 conjI [OF c3 conjI [OF c4 c5]]]]]
  note t5 = t [THEN conjunct2, THEN conjunct2, THEN conjunct2, THEN conjunct2, THEN conjunct1,
      THEN mp, OF conjI [OF d1 conjI [OF d2 conjI [OF d3 conjI [OF d4 conjI [OF d5 b3]]]]]]
  note t6 = t' [THEN conjunct2, THEN conjunct2, THEN conjunct2, THEN conjunct2, THEN conjunct2,
      THEN conjunct1, THEN mp, OF e1]
  note t7 = t' [THEN conjunct2, THEN conjunct2, THEN conjunct2, THEN conjunct2, THEN conjunct2,
      THEN conjunct2, THEN mp, OF conjI [OF f1 f2]]
  have g3: "timeout_msg \<noteq> ''FFmpeg error: Invalid data found''"
    using t3 by simp
  have g4: "fst (loop example_env ?d False 4 3 [?v] ?c ?wb)
     = Inr \<lparr>processed_count = 0, skipped_count = 1, failed_count = 2\<rparr>"
    unfolding t4 by simp
  have g5: "fst (loop example_env ?d False 4 3 [?v'] ?c ?wb)
     = Inr \<lparr>processed_count = 0, skipped_count = 1, failed_count = 2\<rparr>"
    unfolding t5 by simp
  from t6 obtain evs where
    "out (snd (loop example_env ?d False 4 1 ?vs ?z ?wb)) = evs"
    "extractions evs = 1" "skips evs = 1" "failures evs = 2"
    by auto
  then have g6: "\<exists>evs. out (snd (loop example_env ?d False 4 1 ?vs ?z ?wb)) = evs \<and>
          extractions evs = 1 \<and> skips evs = 1 \<and> failures evs = 2"
    by blast
  have g7: "\<exists>evs. out (snd (process_videos example_env ?d False ?wb))
            = [Found 4] @ evs @ [Summary (extractions evs) (skips evs) (failures evs) 4] \<and>
          extractions evs + skips evs + failures evs = 4"
    using t7 unfolding f3 by simp
  have g2: "fst (extract_frames example_env ?v' ?o' ?w)
     = Inr (False, 0, Some ''FFmpeg error: Invalid data found'')"
    using t2 by simp
  from t1 g2 g3 g4 g5 g6 g7 show ?thesis
    by (intro conjI)
qed


section \<open>Reaching the end of the list\<close>

lemma tool_tail_no_summary: "Summary p s f n \<notin> set (tool_tail r t q)"
  by (cases r) (simp_all add: tool_tail_def)

lemma loop_body_trace:
  "\<exists>evs. out (snd (loop_body e d frc tot i v cs w)) = out w @ evs \<and>
     visited evs = [(i, name v)] \<and> (\<forall>p s f n. Summary p s f n \<notin> set evs)"
proof (cases "skip_now (fs w) d frc v")
  case True
  then have "0 < frame_count (fs w) (frames_dir v d)" "\<not> frc"
    by (simp_all add: skip_now_iff)
  from loop_body_skip [OF this, of e tot i cs] show ?thesis
    by (simp add: visited_def)
next
  case False
  then have na: "frame_count (fs w) (frames_dir v d) = 0 \<or> frc"
    by (auto simp: skip_now_iff)
  show ?thesis
  proof (cases "mkdir (fs w) (frames_dir v d)")
    case (Inl x)
    then show ?thesis
      unfolding loop_body_unskipped [OF na] Let_def by (simp add: visited_def)
  next
    case m1: (Inr t3)
    show ?thesis
    proof (cases "mkdir t3 (curation_dir v d)")
      case (Inl x)
      then show ?thesis
        unfolding loop_body_unskipped [OF na] Let_def using m1 by (simp add: visited_def)
    next
      case m2: (Inr t4)
      show ?thesis
      proof (cases "mkdir t4 (frames_dir v d)")
        case (Inl x)
        then show ?thesis
          unfolding loop_body_unskipped [OF na] Let_def extract_frames_cases using m1 m2
          by (simp add: visited_def)
      next
        case m3: (Inr t5)
        obtain r t6 where r: "ffmpeg_extract e t5 v (output_pattern v d) = (r, t6)"
          by (cases "ffmpeg_extract e t5 v (output_pattern v d)")
        show ?thesis
          unfolding loop_body_run [OF False m1 m2 m3 r]
          by (simp add: tool_tail_counts tool_tail_no_summary) (simp add: started_def)
      qed
    qed
  qed
qed

lemma loop_Inl_trace:
  "loop e d frc tot i vs cs w = (Inl x, w') \<Longrightarrow>
   \<exists>evs k. out w' = out w @ evs \<and> k < length vs \<and>
     visited evs = enumerate i (map name (take (Suc k) vs)) \<and>
     (\<forall>p s f n. Summary p s f n \<notin> set evs)"
proof (induction vs arbitrary: i cs w)
  case Nil
  then show ?case by simp
next
  case (Cons v vs)
  from loop_body_trace [of e d frc tot i v cs w] obtain ev1 where
    a: "out (snd (loop_body e d frc tot i v cs w)) = out w @ ev1"
      "visited ev1 = [(i, name v)]" "\<forall>p s f n. Summary p s f n \<notin> set ev1"
    by blast
  show ?case
  proof (cases "fst (loop_body e d frc tot i v cs w)")
    case (Inl y)
    with Cons.prems have "w' = snd (loop_body e d frc tot i v cs w)"
      by (auto split: prod.splits sum.splits)
    with a show ?thesis
      by (intro exI [of _ ev1] exI [of _ 0]) simp
  next
    case (Inr cs1)
    with Cons.prems have lp:
      "loop e d frc tot (i + 1) vs cs1 (snd (loop_body e d frc tot i v cs w)) = (Inl x, w')"
      by (auto split: prod.splits sum.splits)
    from Cons.IH [OF lp] obtain ev2 k where
      b: "out w' = out (snd (loop_body e d frc tot i v cs w)) @ ev2" "k < length vs"
        "visited ev2 = enumerate (i + 1) (map name (take (Suc k) vs))"
        "\<forall>p s f n. Summary p s f n \<notin> set ev2"
      by blast
    with a show ?thesis
      by (intro exI [of _ "ev1 @ ev2"] exI [of _ "Suc k"]) simp
  qed
qed

lemma process_videos_Inl_trace:
  assumes pv: "process_videos e d frc w = (Inl x, w')"
  shows "\<exists>evs k. out w' = out w @ [Found (length (get_video_files (fs w) d))] @ evs \<and>
     k < length (get_video_files (fs w) d) \<and>
     visited evs = enumerate 1 (map name (take (Suc k) (get_video_files (fs w) d))) \<and>
     (\<forall>p s f n. Summary p s f n \<notin> set evs)"
proof -
  let ?vs = "get_video_files (fs w) d"
  let ?z = "\<lparr>processed_count = 0, skipped_count = 0, failed_count = 0\<rparr>"
  from pv have
    lp: "loop e d frc (length ?vs) 1 ?vs ?z (print (Found (length ?vs)) w) = (Inl x, w')"
    by (auto simp: process_videos_def Let_def split: prod.splits sum.splits if_splits)
  from loop_Inl_trace [OF lp] show ?thesis by simp
qed

text \<open>
  Claim C1, as amended. A video that is not skipped, whose directories could be made
  and whose extraction ends in the timeout or with a return code other than 0, does not
  end the loop: the loop goes on with the next video, on the file system the tool left,
  with the failed counter raised by one. Every pass that returns raises exactly one of
  the three counters by one and hands over to the next video; a pass that raises an
  exception ends the loop with that exception. When the loop reaches the end of the
  list, the log shows every video, in order, and the three counters have grown by the
  length of the list together. A run that returns, on a directory with at least one
  video, shows every video numbered from 1 and prints the summary last, with the
  counters counted from zero and adding up to the number of videos. A run that an
  exception leaves shows the videos up to the one that raised, and no summary.
\<close>

theorem process_videos_loop_end:
  "(\<not> skip_now (fs w) d frc v \<and> mkdir (fs w) (frames_dir v d) = Inr t3 \<and>
    mkdir t3 (curation_dir v d) = Inr t4 \<and> mkdir t4 (frames_dir v d) = Inr t5 \<and>
    ffmpeg_extract e t5 v (output_pattern v d) = (r, t6) \<and>
    (r = TimedOut \<or> (\<exists>rc so se. r = Returned rc so se \<and> rc \<noteq> 0)) \<longrightarrow>
      (\<exists>w1. fs w1 = t6 \<and>
         loop e d frc tot i (v # rest) cs w =
           loop e d frc tot (i + 1) rest (cs\<lparr>failed_count := failed_count cs + 1\<rparr>) w1)) \<and>
   (loop_body e d frc tot i va csa wa = (Inr csb, wb) \<longrightarrow>
      incremented_one csa csb \<and>
      loop e d frc tot i (va # rest) csa wa = loop e d frc tot (i + 1) rest csb wb) \<and>
   (loop_body e d frc tot i vb csc wc = (Inl x, wd) \<longrightarrow>
      loop e d frc tot i (vb # rest) csc wc = (Inl x, wd)) \<and>
   (loop e d frc tot i vids cse we = (Inr csf, wk) \<longrightarrow>
      visited (out wk) = visited (out we) @ enumerate i (map name vids) \<and>
      processed_count csf + skipped_count csf + failed_count csf =
        processed_count cse + skipped_count cse + failed_count cse + length vids) \<and>
   (process_videos e d frc wg = (Inr u, wh) \<and> get_video_files (fs wg) d \<noteq> [] \<longrightarrow>
      (\<exists>evs. out wh = out wg @ [Found (length (get_video_files (fs wg) d))] @ evs @
                 [Summary (extractions evs) (skips evs) (failures evs)
                    (length (get_video_files (fs wg) d))] \<and>
         visited evs = enumerate 1 (map name (get_video_files (fs wg) d)) \<and>
         extractions evs + skips evs + failures evs = length (get_video_files (fs wg) d))) \<and>
   (process_videos e d frc wi = (Inl y, wj) \<longrightarrow>
      (\<exists>evs k. out wj = out wi @ [Found (length (get_video_files (fs wi) d))] @ evs \<and>
         k < length (get_video_files (fs wi) d) \<and>
         visited evs = enumerate 1 (map name (take (Suc k) (get_video_files (fs wi) d))) \<and>
         (\<forall>p s f n. Summary p s f n \<notin> set evs)))"
proof (intro conjI impI)
  assume a: "\<not> skip_now (fs w) d frc v \<and> mkdir (fs w) (frames_dir v d) = Inr t3 \<and>
    mkdir t3 (curation_dir v d) = Inr t4 \<and> mkdir t4 (frames_dir v d) = Inr t5 \<and>
    ffmpeg_extract e t5 v (output_pattern v d) = (r, t6) \<and>
    (r = TimedOut \<or> (\<exists>rc so se. r = Returned rc so se \<and> rc \<noteq> 0))"
  then have f: "tool_failed r" by (auto simp: tool_failed_def)
  let ?w1 = "\<lparr>fs = t6, out = out w @ started i tot v d @ tool_tail r t6 (frames_dir v d)\<rparr>"
  from a loop_failed_step [of w d frc v t3 t4 t5 e r t6, OF _ _ _ _ _ f]
  have "loop e d frc tot i (v # rest) cs w =
      loop e d frc tot (i + 1) rest (cs\<lparr>failed_count := failed_count cs + 1\<rparr>) ?w1"
    by blast
  moreover have "fs ?w1 = t6" by simp
  ultimately show "\<exists>w1. fs w1 = t6 \<and>
         loop e d frc tot i (v # rest) cs w =
           loop e d frc tot (i + 1) rest (cs\<lparr>failed_count := failed_count cs + 1\<rparr>) w1"
    by blast
next
  assume a: "loop_body e d frc tot i va csa wa = (Inr csb, wb)"
  from loop_body_Inr_trace [OF a] show "incremented_one csa csb" by blast
  from a show "loop e d frc tot i (va # rest) csa wa = loop e d frc tot (i + 1) rest csb wb"
    by simp
next
  assume "loop_body e d frc tot i vb csc wc = (Inl x, wd)"
  then show "loop e d frc tot i (vb # rest) csc wc = (Inl x, wd)" by simp
next
  assume a: "loop e d frc tot i vids cse we = (Inr csf, wk)"
  from loop_Inr_trace [OF a] obtain evs where
    b: "out wk = out we @ evs"
      "processed_count csf = processed_count cse + extractions evs"
      "skipped_count csf = skipped_count cse + skips evs"
      "failed_count csf = failed_count cse + failures evs"
      "visited evs = enumerate i (map name vids)"
      "skips evs + attempts evs = length vids"
      "extractions evs + failures evs = attempts evs"
    by blast
  from b show "visited (out wk) = visited (out we) @ enumerate i (map name vids)" by simp
  from b show "processed_count csf + skipped_count csf + failed_count csf =
        processed_count cse + skipped_count cse + failed_count cse + length vids"
    by simp
next
  assume a: "process_videos e d frc wg = (Inr u, wh) \<and> get_video_files (fs wg) d \<noteq> []"
  from process_videos_Inr_trace [of e d frc wg u wh] a
  obtain evs where
    o: "out wh = out wg @ [Found (length (get_video_files (fs wg) d))] @ evs @
                 [Summary (extractions evs) (skips evs) (failures evs)
                    (length (get_video_files (fs wg) d))]"
    and v: "visited evs = enumerate 1 (map name (get_video_files (fs wg) d))"
    and s: "skips evs + attempts evs = length (get_video_files (fs wg) d)"
      "extractions evs + failures evs = attempts evs"
    by blast
  from s have "extractions evs + skips evs + failures evs = length (get_video_files (fs wg) d)"
    by simp
  with o v show "\<exists>evs. out wh = out wg @ [Found (length (get_video_files (fs wg) d))] @ evs @
                 [Summary (extractions evs) (skips evs) (failures evs)
                    (length (get_video_files (fs wg) d))] \<and>
         visited evs = enumerate 1 (map name (get_video_files (fs wg) d)) \<and>
         extractions evs + skips evs + failures evs = length (get_video_files (fs wg) d)"
    by blast
next
  assume "process_videos e d frc wi = (Inl y, wj)"
  from process_videos_Inl_trace [OF this]
  show "\<exists>evs k. out wj = out wi @ [Found (length (get_video_files (fs wi) d))] @ evs \<and>
         k < length (get_video_files (fs wi) d) \<and>
         visited evs = enumerate 1 (map name (take (Suc k) (get_video_files (fs wi) d))) \<and>
         (\<forall>p s f n. Summary p s f n \<notin> set evs)"
    by blast
qed

text \<open>
  Claim C1, as stated, fails: with a regular file \<open>clip\<close> beside \<open>clip.mp4\<close> the
  directory for the first video cannot be made, the exception leaves the loop, the
  second video is never reached and no summary is printed.
\<close>

theorem process_videos_abort_counterexample:
  "get_video_files clash_fs [''vids''] = [[''vids'', ''clip.mp4''], [''vids'', ''zebra.mp4'']] \<and>
   process_videos example_env [''vids''] False \<lparr>fs = clash_fs, out = []\<rparr> =
     (Inl NotADirectoryError, \<lparr>fs = clash_fs, out = [Found 2, Processing 1 2 ''clip.mp4'']\<rparr>)"
  by code_simp

lemma clash_videos:
  "get_video_files clash_fs [''vids''] = [[''vids'', ''clip.mp4''], [''vids'', ''zebra.mp4'']]"
  by code_simp

theorem process_videos_loop_end_witness:
  "(\<exists>w1. loop example_env [''vids''] False 4 3 [[''vids'', ''game2.MP4''], [''vids'', ''zoom.mp4'']]
            \<lparr>processed_count = 0, skipped_count = 1, failed_count = 1\<rparr>
            \<lparr>fs = batch_fs, out = []\<rparr> =
          loop example_env [''vids''] False 4 4 [[''vids'', ''zoom.mp4'']]
            \<lparr>processed_count = 0, skipped_count = 1, failed_count = 2\<rparr> w1) \<and>
   incremented_one \<lparr>processed_count = 0, skipped_count = 1, failed_count = 1\<rparr>
     \<lparr>processed_count = 0, skipped_count = 1, failed_count = 2\<rparr> \<and>
   loop example_env [''vids''] False 4 3 [[''vids'', ''clip.mp4''], [''vids'', ''zoom.mp4'']]
       \<lparr>processed_count = 0, skipped_count = 1, failed_count = 1\<rparr>
       \<lparr>fs = clash_fs, out = []\<rparr> =
     (Inl NotADirectoryError, \<lparr>fs = clash_fs, out = [Processing 3 4 ''clip.mp4'']\<rparr>) \<and>
   visited (out (snd (loop example_env [''vids''] False 4 3
                        [[''vids'', ''game2.MP4''], [''vids'', ''zoom.mp4'']]
                        \<lparr>processed_count = 0, skipped_count = 1, failed_count = 1\<rparr>
                        \<lparr>fs = batch_fs, out = []\<rparr>))) =
     [(3, ''game2.MP4''), (4, ''zoom.mp4'')] \<and>
   (\<exists>evs. out (snd (process_videos example_env [''vids''] False \<lparr>fs = batch_fs, out = []\<rparr>))
            = [Found 4] @ evs @ [Summary (extractions evs) (skips evs) (failures evs) 4] \<and>
          visited evs = enumerate 1 [''bad.mp4'', ''game1.mp4'', ''game2.MP4'', ''zoom.mp4''] \<and>
          extractions evs + skips evs + failures evs = 4) \<and>
   (\<exists>evs k. out (snd (process_videos example_env [''vids''] False \<lparr>fs = clash_fs, out = []\<rparr>))
            = [Found 2] @ evs \<and> k < 2 \<and>
          visited evs = enumerate 1 (map name (take (Suc k)
            [[''vids'', ''clip.mp4''], [''vids'', ''zebra.mp4'']])) \<and>
          (\<forall>p s f n. Summary p s f n \<notin> set evs))"
proof -
  let ?wb = "\<lparr>fs = batch_fs, out = []\<rparr>"
  let ?wx = "\<lparr>fs = clash_fs, out = []\<rparr>"
  let ?d = "[''vids'']"
  let ?v = "[''vids'', ''game2.MP4'']"
  let ?v' = "[''vids'', ''bad.mp4'']"
  let ?vc = "[''vids'', ''clip.mp4'']"
  let ?rest = "[[''vids'', ''zoom.mp4'']]"
  let ?c = "\<lparr>processed_count = 0, skipped_count = 1, failed_count = 1\<rparr>"
  let ?c' = "\<lparr>processed_count = 0, skipped_count = 1, failed_count = 2\<rparr>"
  let ?t3 = "projr (mkdir batch_fs (frames_dir ?v ?d))"
  let ?t4 = "projr (mkdir ?t3 (curation_dir ?v ?d))"
  let ?t6 = "snd (ffmpeg_extract example_env ?t4 ?v (output_pattern ?v ?d))"
  let ?lb = "loop_body example_env ?d False 4 3 ?v' ?c ?wb"
  let ?lp = "loop example_env ?d False 4 3 (?v # ?rest) ?c ?wb"
  let ?pb = "process_videos example_env ?d False ?wb"
  let ?px = "process_videos example_env ?d False ?wx"
  have c1: "\<not> skip_now (fs ?wb) ?d False ?v" by code_simp
  have c2: "mkdir (fs ?wb) (frames_dir ?v ?d) = Inr ?t3" by code_simp
  have c3: "mkdir ?t3 (curation_dir ?v ?d) = Inr ?t4" by code_simp
  have c4: "mkdir ?t4 (frames_dir ?v ?d) = Inr ?t4" by code_simp
  have c5: "ffmpeg_extract example_env ?t4 ?v (output_pattern ?v ?d) = (TimedOut, ?t6)"
    by code_simp
  have c6: "TimedOut = TimedOut \<or> (\<exists>rc so se. TimedOut = Returned rc so se \<and> rc \<noteq> 0)"
    by simp
  have d1: "?lb = (Inr ?c', snd ?lb)" by code_simp
  have e1: "loop_body example_env ?d False 4 3 ?vc ?c ?wx =
      (Inl NotADirectoryError, \<lparr>fs = clash_fs, out = [Processing 3 4 ''clip.mp4'']\<rparr>)"
    by code_simp
  have f1: "?lp = (Inr \<lparr>processed_count = 1, skipped_count = 1, failed_count = 2\<rparr>, snd ?lp)"
    by code_simp
  have g1: "?pb = (Inr (), snd ?pb)" by code_simp
  have g2: "get_video_files (fs ?wb) ?d \<noteq> []" by (simp add: batch_videos)
  have g3: "get_video_files (fs ?wb) ?d =
      [[''vids'', ''bad.mp4''], [''vids'', ''game1.mp4''], [''vids'', ''game2.MP4''],
       [''vids'', ''zoom.mp4'']]"
    by (simp add: batch_videos)
  have h1: "?px = (Inl NotADirectoryError, snd ?px)" by code_simp
  have h3: "get_video_files (fs ?wx) ?d = [[''vids'', ''clip.mp4''], [''vids'', ''zebra.mp4'']]"
    by (simp add: clash_videos)
  note t = process_videos_loop_end [where w = ?wb and d = ?d and frc = False and v = ?v
      and ?t3.0 = ?t3 and ?t4.0 = ?t4 and ?t5.0 = ?t4 and e = example_env and r = TimedOut
      and ?t6.0 = ?t6 and tot = 4 and i = 3 and rest = ?rest and cs = ?c
      and va = ?v' and csa = ?c and wa = ?wb and csb = ?c' and wb = "snd ?lb"
      and vb = ?vc and csc = ?c and wc = ?wx and x = NotADirectoryError
      and wd = "\<lparr>fs = clash_fs, out = [Processing 3 4 ''clip.mp4'']\<rparr>"
      and vids = "?v # ?rest" and cse = ?c and we = ?wb
      and csf = "\<lparr>processed_count = 1, skipped_count = 1, failed_count = 2\<rparr>"
      and wk = "snd ?lp"
      and wg = ?wb and u = "()" and wh = "snd ?pb"
      and wi = ?wx and y = NotADirectoryError and wj = "snd ?px"]
  note t1 = t [THEN conjunct1, THEN mp,
      OF conjI [OF c1 conjI [OF c2 conjI [OF c3 conjI [OF c4 conjI [OF c5 c6]]]]]]
  note t2 = t [THEN conjunct2, THEN conjunct1, THEN mp, OF d1]
  note t3 = t [THEN conjunct2, THEN conjunct2, THEN conjunct1, THEN mp, OF e1]
  note t4 = t [THEN conjunct2, THEN conjunct2, THEN conjunct2, THEN conjunct1, THEN mp, OF f1]
  note t5 = t [THEN conjunct2, THEN conjunct2, THEN conjunct2, THEN conjunct2, THEN conjunct1,
      THEN mp, OF conjI [OF g1 g2]]
  note t6 = t [THEN conjunct2, THEN conjunct2, THEN conjunct2, THEN conjunct2, THEN conjunct2,
      THEN mp, OF h1]
  have n: "(3::nat) + 1 = 4" by simp
  have rc: "?c\<lparr>failed_count := failed_count ?c + 1\<rparr> = ?c'" by simp
  from t1 [unfolded n rc] obtain w1 where
    "loop example_env ?d False 4 3 (?v # ?rest) ?c ?wb =
       loop example_env ?d False 4 4 ?rest ?c' w1"
    by (elim exE conjE)
  then have k1: "\<exists>w1. loop example_env ?d False 4 3 (?v # ?rest) ?c ?wb =
       loop example_env ?d False 4 4 ?rest ?c' w1"
    by (rule exI)
  have k2: "incremented_one ?c ?c'" using t2 by blast
  have k4: "visited (out (snd ?lp)) = [(3, ''game2.MP4''), (4, ''zoom.mp4'')]"
    using t4 by (simp add: name_def visited_def)
  have k5: "\<exists>evs. out (snd ?pb)
            = [Found 4] @ evs @ [Summary (extractions evs) (skips evs) (failures evs) 4] \<and>
          visited evs = enumerate 1 [''bad.mp4'', ''game1.mp4'', ''game2.MP4'', ''zoom.mp4''] \<and>
          extractions evs + skips evs + failures evs = 4"
    using t5 unfolding g3 by (simp add: name_def eval_nat_numeral)
  have k6: "\<exists>evs k. out (snd ?px) = [Found 2] @ evs \<and> k < 2 \<and>
          visited evs = enumerate 1 (map name (take (Suc k)
            [[''vids'', ''clip.mp4''], [''vids'', ''zebra.mp4'']])) \<and>
          (\<forall>p s f n. Summary p s f n \<notin> set evs)"
    using t6 unfolding h3 by (simp add: eval_nat_numeral)
  from k1 k2 t3 k4 k5 k6 show ?thesis
    by (intro conjI)
qed

text \<open>
  Names that put a dot in the place of the stem. The video \<^verbatim>\<open>..mp4\<close> has the stem
  \<^verbatim>\<open>.\<close>, which \<^verbatim>\<open>pathlib\<close> drops, so its frame directory is \<^verbatim>\<open>all_frames\<close> in the
  directory of the videos itself: where that is a regular file, making it raises
  \<^verbatim>\<open>FileExistsError\<close> and the run ends there. The video \<^verbatim>\<open>...mp4\<close> has the stem
  \<^verbatim>\<open>..\<close>, so its frames are looked for in the parent of the directory of the videos:
  where that holds frames, the video is skipped.
\<close>

lemma dot_stems:
  "stem [''vids'', ''..mp4''] = ''.''"
  "frames_dir [''vids'', ''..mp4''] [''vids''] = [''vids'', ''all_frames'']"
  "process_videos example_env [''vids''] False \<lparr>fs = dotted_fs, out = []\<rparr> =
     (Inl FileExistsError, \<lparr>fs = dotted_fs, out = [Found 2, Processing 1 2 ''..mp4'']\<rparr>)"
  "stem [''vids'', ''...mp4''] = ''..''"
  "frames_dir [''vids'', ''...mp4''] [''vids''] = [''vids'', ''..'', ''all_frames'']"
  "process_videos example_env [''vids''] False \<lparr>fs = updir_fs, out = []\<rparr> =
     (Inr (), \<lparr>fs = updir_fs,
               out = [Found 1, Processing 1 1 ''...mp4'', Skipping 1, Blank, Summary 0 1 0 1]\<rparr>)"
  by code_simp+


section \<open>The exit status\<close>


lemma fs_check [simp]: "fs (snd (check_ffmpeg_installed e w)) = fs w"
  by (auto simp: check_ffmpeg_installed_def Let_def split: run_outcome.splits)

lemma fs_checked [simp]: "fs (snd (checked e a w)) = fs w"
  by (simp add: checked_def)

lemma checked_False_iff: "(fst (checked e a w) = Inr False) = tool_unavailable e"
  by (auto simp: checked_def tool_unavailable_def check_ffmpeg_installed_def Let_def
      split: run_outcome.splits)

lemma desktop_missing_iff:
  "desktop_missing e a w = (\<not> override a \<and> get_desktop_path e w = Inl FileNotFoundError)"
  by (auto simp: desktop_missing_def get_desktop_path_def Let_def)

lemma main_desktop_missing:
  assumes "desktop_missing e a w"
  shows "main e (Parsed a) w = (SysExit 1, print (DesktopError (home e @ [''Desktop''])) w)"
  using assms
  by (auto simp: desktop_missing_def override_def main_def get_desktop_path_def Let_def
      split: option.splits)

lemma main_run_from:
  assumes "\<not> desktop_missing e a w"
  shows "main e (Parsed a) w = run_from e a (target e a) w"
  using assms
  by (auto simp: desktop_missing_def override_def target_def main_def get_desktop_path_def Let_def
      split: option.splits)

lemma run_from_cases:
  "fst (run_from e a (target e a) w) =
     (case fst (checked e a w) of
        Inl x \<Rightarrow> Uncaught x
      | Inr ok \<Rightarrow>
          if \<not> ok then SysExit 1
          else (case fst (process_videos e (target e a) (force a) (snd (checked e a w))) of
                  Inl x \<Rightarrow> Uncaught x
                | Inr u \<Rightarrow> Finished))"
  by (auto simp: run_from_def checked_def split: prod.splits sum.splits)

lemma process_videos_nothing:
  assumes "\<not> exists (fs w) d \<or> get_video_files (fs w) d = []"
  shows "fst (process_videos e d frc w) = Inr ()"
  using assms by (auto simp: process_videos_def Let_def)

lemma exit_status_run_from:
  "(exit_status (fst (run_from e a (target e a) w)) \<noteq> 0) =
     (fst (checked e a w) = Inr False \<or> (\<exists>x. fst (checked e a w) = Inl x) \<or>
      (fst (checked e a w) = Inr True \<and>
       (\<exists>x. fst (process_videos e (target e a) (force a) (snd (checked e a w))) = Inl x)))"
proof (cases "fst (checked e a w)")
  case (Inl x)
  then show ?thesis by (simp add: run_from_cases)
next
  case (Inr ok)
  then show ?thesis
    by (cases ok; cases "fst (process_videos e (target e a) (force a) (snd (checked e a w)))")
      (simp_all add: run_from_cases)
qed

text \<open>
  Claim C5, as amended. A command line that the parser rejects ends the process with
  status 2, a request for help with status 0. With parsed arguments: when no directory
  is given and the default base directory cannot be located, the run prints the error
  and ends with status 1, and nothing else has happened; otherwise the tool is checked,
  and the check answers no exactly when the tool is unavailable, which ends the run
  with status 1; an exception that leaves the check or the processing ends the run as
  uncaught, with status 1; and when the processing returns, whatever it counted, the
  run ends with status 0, as it does when the directory is missing or holds no video.
  The status is other than 0 exactly when the command line is rejected, or locating the
  default base directory raises, or the check answers no or raises, or the processing
  raises.
\<close>

theorem main_exit_status:
  "main e UsageError w = (SysExit 2, print UsageMessage w) \<and>
   main e Help w = (SysExit 0, print HelpMessage w) \<and>
   (desktop_missing e a w = (\<not> override a \<and> get_desktop_path e w = Inl FileNotFoundError)) \<and>
   (desktop_missing e a w \<longrightarrow>
      main e (Parsed a) w = (SysExit 1, print (DesktopError (home e @ [''Desktop''])) w)) \<and>
   (\<not> desktop_missing e a w \<longrightarrow>
      ((fst (checked e a w) = Inr False) = tool_unavailable e) \<and>
      (fst (checked e a w) = Inr False \<longrightarrow> fst (main e (Parsed a) w) = SysExit 1) \<and>
      (\<forall>x. fst (checked e a w) = Inl x \<longrightarrow> fst (main e (Parsed a) w) = Uncaught x) \<and>
      (fst (checked e a w) = Inr True \<longrightarrow>
         (\<forall>x. fst (process_videos e (target e a) (force a) (snd (checked e a w))) = Inl x \<longrightarrow>
              fst (main e (Parsed a) w) = Uncaught x) \<and>
         (\<forall>u. fst (process_videos e (target e a) (force a) (snd (checked e a w))) = Inr u \<longrightarrow>
              fst (main e (Parsed a) w) = Finished) \<and>
         (\<not> exists (fs w) (target e a) \<or> get_video_files (fs w) (target e a) = [] \<longrightarrow>
              fst (main e (Parsed a) w) = Finished))) \<and>
   ((exit_status (fst (main e cl w)) \<noteq> 0) =
      (cl = UsageError \<or>
       (\<exists>b. cl = Parsed b \<and>
          ((\<not> override b \<and> (\<exists>x. get_desktop_path e w = Inl x)) \<or>
           fst (checked e b w) = Inr False \<or>
           (\<exists>x. fst (checked e b w) = Inl x) \<or>
           (fst (checked e b w) = Inr True \<and>
            (\<exists>x. fst (process_videos e (target e b) (force b) (snd (checked e b w))) = Inl x))))))"
proof (intro conjI impI allI)
  show "main e UsageError w = (SysExit 2, print UsageMessage w)" by (simp add: main_def)
  show "main e Help w = (SysExit 0, print HelpMessage w)" by (simp add: main_def)
  show "desktop_missing e a w = (\<not> override a \<and> get_desktop_path e w = Inl FileNotFoundError)"
    by (rule desktop_missing_iff)
next
  assume "desktop_missing e a w"
  then show "main e (Parsed a) w = (SysExit 1, print (DesktopError (home e @ [''Desktop''])) w)"
    by (rule main_desktop_missing)
next
  show "(fst (checked e a w) = Inr False) = tool_unavailable e" by (rule checked_False_iff)
next
  assume "\<not> desktop_missing e a w" "fst (checked e a w) = Inr False"
  then show "fst (main e (Parsed a) w) = SysExit 1"
    by (simp add: main_run_from run_from_cases)
next
  fix x assume "\<not> desktop_missing e a w" "fst (checked e a w) = Inl x"
  then show "fst (main e (Parsed a) w) = Uncaught x"
    by (simp add: main_run_from run_from_cases)
next
  fix x assume "\<not> desktop_missing e a w" "fst (checked e a w) = Inr True"
    "fst (process_videos e (target e a) (force a) (snd (checked e a w))) = Inl x"
  then show "fst (main e (Parsed a) w) = Uncaught x"
    by (simp add: main_run_from run_from_cases)
next
  fix u assume "\<not> desktop_missing e a w" "fst (checked e a w) = Inr True"
    "fst (process_videos e (target e a) (force a) (snd (checked e a w))) = Inr u"
  then show "fst (main e (Parsed a) w) = Finished"
    by (simp add: main_run_from run_from_cases)
next
  assume a: "\<not> desktop_missing e a w" "fst (checked e a w) = Inr True"
    and "\<not> exists (fs w) (target e a) \<or> get_video_files (fs w) (target e a) = []"
  then have "fst (process_videos e (target e a) (force a) (snd (checked e a w))) = Inr ()"
    by (intro process_videos_nothing) simp
  with a show "fst (main e (Parsed a) w) = Finished"
    by (simp add: main_run_from run_from_cases)
next
  show "(exit_status (fst (main e cl w)) \<noteq> 0) =
      (cl = UsageError \<or>
       (\<exists>b. cl = Parsed b \<and>
          ((\<not> override b \<and> (\<exists>x. get_desktop_path e w = Inl x)) \<or>
           fst (checked e b w) = Inr False \<or>
           (\<exists>x. fst (checked e b w) = Inl x) \<or>
           (fst (checked e b w) = Inr True \<and>
            (\<exists>x. fst (process_videos e (target e b) (force b) (snd (checked e b w))) = Inl x)))))"
  proof (cases cl)
    case (Parsed b)
    have dm: "(\<not> override b \<and> (\<exists>x. get_desktop_path e w = Inl x)) = desktop_missing e b w"
      by (auto simp: desktop_missing_def get_desktop_path_def Let_def)
    show ?thesis
    proof (cases "desktop_missing e b w")
      case True
      then show ?thesis using Parsed dm by (simp add: main_desktop_missing)
    next
      case False
      have m: "main e (Parsed b) w = run_from e b (target e b) w"
        using False by (rule main_run_from)
      have nd: "\<not> (\<not> override b \<and> (\<exists>x. get_desktop_path e w = Inl x))"
        using False dm by simp
      show ?thesis
        unfolding Parsed m exit_status_run_from using nd by auto
    qed
  next
    case UsageError
    then show ?thesis by (simp add: main_def)
  next
    case Help
    then show ?thesis by (simp add: main_def)
  qed
qed

theorem main_exit_status_witness:
  "main example_env (Parsed \<lparr>videos_dir = None, force = False\<rparr>) \<lparr>fs = batch_fs, out = []\<rparr> =
     (SysExit 1, \<lparr>fs = batch_fs, out = [DesktopError [''home'', ''u'', ''Desktop'']]\<rparr>) \<and>
   fst (main example_env (Parsed clash_args) \<lparr>fs = batch_fs, out = []\<rparr>) = Finished \<and>
   fst (main example_env (Parsed clash_args) \<lparr>fs = clash_fs, out = []\<rparr>) =
     Uncaught NotADirectoryError \<and>
   exit_status (fst (main example_env (Parsed clash_args) \<lparr>fs = clash_fs, out = []\<rparr>)) \<noteq> 0 \<and>
   fst (main (example_env\<lparr>ffmpeg_version := NoSuchProgram\<rparr>) (Parsed clash_args)
          \<lparr>fs = batch_fs, out = []\<rparr>) = SysExit 1 \<and>
   fst (main (example_env\<lparr>ffmpeg_version := Undecodable\<rparr>) (Parsed clash_args)
          \<lparr>fs = batch_fs, out = []\<rparr>) = Uncaught UnicodeDecodeError \<and>
   fst (main example_env (Parsed clash_args) \<lparr>fs = Dir [], out = []\<rparr>) = Finished"
proof -
  let ?wb = "\<lparr>fs = batch_fs, out = []\<rparr>"
  let ?wx = "\<lparr>fs = clash_fs, out = []\<rparr>"
  let ?wn = "\<lparr>fs = Dir [], out = []\<rparr>"
  let ?a = "\<lparr>videos_dir = None, force = False\<rparr>"
  let ?en = "example_env\<lparr>ffmpeg_version := NoSuchProgram\<rparr>"
  let ?eu = "example_env\<lparr>ffmpeg_version := Undecodable\<rparr>"
  have a1: "desktop_missing example_env ?a ?wb" by code_simp
  have b1: "\<not> desktop_missing example_env clash_args ?wb" by code_simp
  have b2: "fst (checked example_env clash_args ?wb) = Inr True" by code_simp
  have b3: "fst (process_videos example_env (target example_env clash_args) (force clash_args)
                   (snd (checked example_env clash_args ?wb))) = Inr ()"
    by code_simp
  have c1: "\<not> desktop_missing example_env clash_args ?wx" by code_simp
  have c2: "fst (checked example_env clash_args ?wx) = Inr True" by code_simp
  have c3: "fst (process_videos example_env (target example_env clash_args) (force clash_args)
                   (snd (checked example_env clash_args ?wx))) = Inl NotADirectoryError"
    by code_simp
  have d1: "\<not> desktop_missing ?en clash_args ?wb" by code_simp
  have d2: "fst (checked ?en clash_args ?wb) = Inr False" by code_simp
  have e1: "\<not> desktop_missing ?eu clash_args ?wb" by code_simp
  have e2: "fst (checked ?eu clash_args ?wb) = Inl UnicodeDecodeError" by code_simp
  have f1: "\<not> desktop_missing example_env clash_args ?wn" by code_simp
  have f2: "fst (checked example_env clash_args ?wn) = Inr True" by code_simp
  have f3: "\<not> exists (fs ?wn) (target example_env clash_args) \<or>
            get_video_files (fs ?wn) (target example_env clash_args) = []"
    by code_simp
  note ta = main_exit_status [where e = example_env and a = ?a and w = ?wb]
  note tb = main_exit_status [where e = example_env and a = clash_args and w = ?wb]
  note tc = main_exit_status [where e = example_env and a = clash_args and w = ?wx
      and cl = "Parsed clash_args"]
  note td = main_exit_status [where e = ?en and a = clash_args and w = ?wb]
  note te = main_exit_status [where e = ?eu and a = clash_args and w = ?wb]
  note tf = main_exit_status [where e = example_env and a = clash_args and w = ?wn]
  have g1: "main example_env (Parsed ?a) ?wb =
      (SysExit 1, \<lparr>fs = batch_fs, out = [DesktopError [''home'', ''u'', ''Desktop'']]\<rparr>)"
    using ta a1 by (simp add: print_def example_env_def)
  have g2: "fst (main example_env (Parsed clash_args) ?wb) = Finished"
    using tb b1 b2 b3 by blast
  have g3: "fst (main example_env (Parsed clash_args) ?wx) = Uncaught NotADirectoryError"
    using tc c1 c2 c3 by blast
  have g4: "exit_status (fst (main example_env (Parsed clash_args) ?wx)) \<noteq> 0"
    using tc c2 c3 by blast
  have g5: "fst (main ?en (Parsed clash_args) ?wb) = SysExit 1"
    using td d1 d2 by blast
  have g6: "fst (main ?eu (Parsed clash_args) ?wb) = Uncaught UnicodeDecodeError"
    using te e1 e2 by blast
  have g7: "fst (main example_env (Parsed clash_args) ?wn) = Finished"
    using tf f1 f2 f3 by blast
  from g1 g2 g3 g4 g5 g6 g7 show ?thesis by (intro conjI)
qed

text \<open>
  Claim C5, as stated, fails: the tool is found and a directory is given, yet the
  directory for \<open>clip.mp4\<close> cannot be made, the exception ends the process and the
  exit status is 1.
\<close>

theorem main_exit_status_counterexample:
  "\<not> tool_unavailable example_env \<and>
   fst (checked example_env clash_args \<lparr>fs = clash_fs, out = []\<rparr>) = Inr True \<and>
   \<not> desktop_missing example_env clash_args \<lparr>fs = clash_fs, out = []\<rparr> \<and>
   fst (main example_env (Parsed clash_args) \<lparr>fs = clash_fs, out = []\<rparr>) =
     Uncaught NotADirectoryError \<and>
   exit_status (fst (main example_env (Parsed clash_args) \<lparr>fs = clash_fs, out = []\<rparr>)) = 1"
  by code_simp


section \<open>Skipping and attempting\<close>

lemma attempted_append [simp]: "attempted (a @ b) = attempted a @ attempted b"
  by (simp add: attempted_def)

lemma attempted_started [simp]: "attempted (started i tot v d) = [stem v]"
  by (simp add: attempted_def started_def)

lemma attempted_tool_tail [simp]: "attempted (tool_tail r t p) = []"
  by (cases r) (simp_all add: attempted_def tool_tail_def)

lemma same_length_parallel:
  assumes "length p = length q" and "p \<noteq> q"
  shows "p \<parallel> q"
proof -
  have "\<not> prefix p q"
  proof
    assume "prefix p q"
    then obtain r where "q = p @ r" by (auto simp: prefix_def)
    with assms show False by simp
  qed
  moreover have "\<not> prefix q p"
  proof
    assume "prefix q p"
    then obtain r where "p = q @ r" by (auto simp: prefix_def)
    with assms show False by simp
  qed
  ultimately show ?thesis by (simp add: parallel_def)
qed

lemma not_prefix_same_length:
  assumes "length p = length q" and "p \<noteq> q"
  shows "\<not> prefix p q"
proof
  assume "prefix p q"
  then obtain r where "q = p @ r" by (auto simp: prefix_def)
  with assms show False by simp
qed

lemma loop_body_frame:
  assumes pd: "plain d" and tc: "tool_confined e"
    and sv: "stem v \<noteq> ''.''" "stem v \<noteq> ''..''"
    and su: "stem u \<noteq> ''.''" "stem u \<noteq> ''..''"
    and ne: "stem u \<noteq> stem v"
    and lb: "loop_body e d frc tot i v cs w = (Inr cs', w')"
  shows "entry (fs w') (frames_dir u d) = entry (fs w) (frames_dir u d)"
proof (cases "skip_now (fs w) d frc v")
  case True
  with loop_body_Inr_cases [OF lb] have "fs w' = fs w" by auto
  then show ?thesis by simp
next
  case False
  with loop_body_Inr_cases [OF lb] obtain t3 t4 t5 r t6 where
    m1: "mkdir (fs w) (frames_dir v d) = Inr t3"
    and m2: "mkdir t3 (curation_dir v d) = Inr t4"
    and m3: "mkdir t4 (frames_dir v d) = Inr t5"
    and r: "ffmpeg_extract e t5 v (output_pattern v d) = (r, t6)"
    and w': "w' = \<lparr>fs = t6, out = out w @ started i tot v d @
                                      tool_tail r t6 (frames_dir v d)\<rparr>"
    by auto
  note dv = video_dirs_plain [OF pd sv]
  note du = video_dirs_plain [OF pd su]
  let ?q = "frames_dir u d"
  have n1: "\<not> prefix ?q (frames_dir v d)"
    using ne by (intro not_prefix_same_length) (simp_all add: dv du)
  have n2: "\<not> prefix ?q (curation_dir v d)"
    using ne by (intro not_prefix_same_length) (simp_all add: dv du)
  have par: "?q \<parallel> frames_dir v d"
    using ne by (intro same_length_parallel) (simp_all add: dv du)
  have pp: "plain (output_pattern v d)"
    using dv(3) by (simp add: output_pattern_def plain_def)
  have bl: "butlast (output_pattern v d) = frames_dir v d"
    by (simp add: output_pattern_def)
  have e3: "entry t3 ?q = entry (fs w) ?q" using dv(3) m1 n1 by (rule mkdir_frame)
  have e4: "entry t4 ?q = entry t3 ?q" using dv(4) m2 n2 by (rule mkdir_frame)
  have e5: "entry t5 ?q = entry t4 ?q" using dv(3) m3 n1 by (rule mkdir_frame)
  have "entry (snd (ffmpeg_extract e t5 v (output_pattern v d))) ?q = entry t5 ?q"
    using tc pp par unfolding tool_confined_def bl [symmetric] by simp
  then have e6: "entry t6 ?q = entry t5 ?q" by (simp add: r)
  show ?thesis by (simp add: w' e6 e5 e4 e3)
qed

lemma loop_body_Inr_log:
  assumes lb: "loop_body e d frc tot i v cs w = (Inr cs', w')"
  shows "\<exists>evs. out w' = out w @ evs \<and>
     skips evs = (if skip_now (fs w) d frc v then 1 else 0) \<and>
     attempts evs = (if skip_now (fs w) d frc v then 0 else 1) \<and>
     attempted evs = (if skip_now (fs w) d frc v then [] else [stem v]) \<and>
     (skip_now (fs w) d frc v \<longrightarrow> fs w' = fs w)"
proof (cases "skip_now (fs w) d frc v")
  case True
  with loop_body_Inr_cases [OF lb]
  have w': "w' = \<lparr>fs = fs w, out = out w @ [Processing i tot (name v),
                     Skipping (frame_count (fs w) (frames_dir v d)), Blank]\<rparr>"
    by simp
  let ?evs = "[Processing i tot (name v), Skipping (frame_count (fs w) (frames_dir v d)), Blank]"
  have c: "skips ?evs = 1" "attempts ?evs = 0" "attempted ?evs = []"
    by (simp_all add: skips_def attempts_def attempted_def)
  show ?thesis
    apply (rule exI [of _ ?evs])
    unfolding c using True by (simp add: w')
next
  case False
  with loop_body_Inr_cases [OF lb] obtain r t6 where
    w': "w' = \<lparr>fs = t6, out = out w @ started i tot v d @
                                      tool_tail r t6 (frames_dir v d)\<rparr>"
    by auto
  let ?evs = "started i tot v d @ tool_tail r t6 (frames_dir v d)"
  show ?thesis
    apply (rule exI [of _ ?evs])
    using False by (simp add: w' tool_tail_counts)
qed

lemma already_Cons:
  "already t d (v # vs) =
     (if 0 < frame_count t (frames_dir v d) then v # already t d vs else already t d vs)"
  by (simp add: already_def)

lemma pending_Cons:
  "pending t d (v # vs) =
     (if 0 < frame_count t (frames_dir v d) then pending t d vs else v # pending t d vs)"
  by (simp add: pending_def)

lemma already_pending_length: "length (already t d vs) + length (pending t d vs) = length vs"
proof (induction vs)
  case Nil
  show ?case by (simp add: already_def pending_def)
next
  case (Cons v vs)
  then show ?case by (simp add: already_Cons pending_Cons)
qed

lemma already_cong:
  assumes "\<And>x. x \<in> set vs \<Longrightarrow> frame_count t' (frames_dir x d) = frame_count t (frames_dir x d)"
  shows "already t' d vs = already t d vs" and "pending t' d vs = pending t d vs"
  using assms by (auto simp: already_def pending_def intro: filter_cong)

lemma loop_unforced:
  assumes pd: "plain d" and tc: "tool_confined e"
  shows "(\<forall>v\<in>set vs. stem v \<noteq> ''.'' \<and> stem v \<noteq> ''..'') \<Longrightarrow> distinct (map stem vs) \<Longrightarrow>
    loop e d False tot i vs cs w = (Inr cs', w') \<Longrightarrow>
    \<exists>evs. out w' = out w @ evs \<and>
      skips evs = length (already (fs w) d vs) \<and>
      attempts evs = length (pending (fs w) d vs) \<and>
      attempted evs = map stem (pending (fs w) d vs) \<and>
      (\<forall>u. stem u \<noteq> ''.'' \<longrightarrow> stem u \<noteq> ''..'' \<longrightarrow> stem u \<notin> stem ` set vs \<longrightarrow>
           entry (fs w') (frames_dir u d) = entry (fs w) (frames_dir u d)) \<and>
      (\<forall>v\<in>set vs. 0 < frame_count (fs w) (frames_dir v d) \<longrightarrow>
           entry (fs w') (frames_dir v d) = entry (fs w) (frames_dir v d)) \<and>
      (pending (fs w) d vs = [] \<longrightarrow> fs w' = fs w)"
proof (induction vs arbitrary: i cs w)
  case Nil
  then show ?case
    by (simp add: skips_def attempts_def attempted_def already_def pending_def)
next
  case (Cons v vs)
  from Cons.prems(3) obtain cs1 w1 where lb: "loop_body e d False tot i v cs w = (Inr cs1, w1)"
    and lp: "loop e d False tot (i + 1) vs cs1 w1 = (Inr cs', w')"
    by (auto split: prod.splits sum.splits)
  from Cons.prems(1) have sv: "stem v \<noteq> ''.''" "stem v \<noteq> ''..''"
    and st: "\<forall>x\<in>set vs. stem x \<noteq> ''.'' \<and> stem x \<noteq> ''..''"
    by simp_all
  from Cons.prems(2) have nv: "stem v \<notin> stem ` set vs" and di: "distinct (map stem vs)"
    by simp_all
  have step: "entry (fs w1) (frames_dir u d) = entry (fs w) (frames_dir u d)"
    if "stem u \<noteq> ''.''" "stem u \<noteq> ''..''" "stem u \<noteq> stem v" for u
    using pd tc sv that lb by (rule loop_body_frame)
  have fc1: "frame_count (fs w1) (frames_dir x d) = frame_count (fs w) (frames_dir x d)"
    if "x \<in> set vs" for x
  proof -
    from that have "stem x \<in> stem ` set vs" by (rule imageI)
    with nv have "stem x \<noteq> stem v" by auto
    with that st have x: "stem x \<noteq> ''.''" "stem x \<noteq> ''..''" "stem x \<noteq> stem v"
      by auto
    from video_dirs_plain(3) [OF pd x(1,2)] step [OF x] show ?thesis
      by (rule frame_count_entry)
  qed
  note al = already_cong [of vs "fs w1" d "fs w", OF fc1]
  from loop_body_Inr_log [OF lb] obtain ev1 where
    a: "out w1 = out w @ ev1"
      "skips ev1 = (if skip_now (fs w) d False v then 1 else 0)"
      "attempts ev1 = (if skip_now (fs w) d False v then 0 else 1)"
      "attempted ev1 = (if skip_now (fs w) d False v then [] else [stem v])"
      "skip_now (fs w) d False v \<longrightarrow> fs w1 = fs w"
    by blast
  from Cons.IH [OF st di lp] obtain ev2 where
    b: "out w' = out w1 @ ev2"
      "skips ev2 = length (already (fs w1) d vs)"
      "attempts ev2 = length (pending (fs w1) d vs)"
      "attempted ev2 = map stem (pending (fs w1) d vs)"
    and b5: "\<forall>u. stem u \<noteq> ''.'' \<longrightarrow> stem u \<noteq> ''..'' \<longrightarrow> stem u \<notin> stem ` set vs \<longrightarrow>
           entry (fs w') (frames_dir u d) = entry (fs w1) (frames_dir u d)"
    and b6: "\<forall>x\<in>set vs. 0 < frame_count (fs w1) (frames_dir x d) \<longrightarrow>
           entry (fs w') (frames_dir x d) = entry (fs w1) (frames_dir x d)"
    and b7: "pending (fs w1) d vs = [] \<longrightarrow> fs w' = fs w1"
    by blast
  have sk: "skip_now (fs w) d False v = (0 < frame_count (fs w) (frames_dir v d))"
    by (simp add: skip_now_iff)
  have c1: "out w' = out w @ (ev1 @ ev2)" using a b by simp
  have c2: "skips (ev1 @ ev2) = length (already (fs w) d (v # vs))"
    using a b by (simp add: al sk already_Cons)
  have c3: "attempts (ev1 @ ev2) = length (pending (fs w) d (v # vs))"
    using a b by (simp add: al sk pending_Cons)
  have c4: "attempted (ev1 @ ev2) = map stem (pending (fs w) d (v # vs))"
    using a b by (simp add: al sk pending_Cons)
  have c5: "entry (fs w') (frames_dir u d) = entry (fs w) (frames_dir u d)"
    if "stem u \<noteq> ''.''" "stem u \<noteq> ''..''" "stem u \<notin> stem ` set (v # vs)" for u
  proof -
    from that have "stem u \<noteq> stem v" "stem u \<notin> stem ` set vs" by auto
    with b5 step that show ?thesis by simp
  qed
  have c6: "entry (fs w') (frames_dir x d) = entry (fs w) (frames_dir x d)"
    if "x \<in> set (v # vs)" "0 < frame_count (fs w) (frames_dir x d)" for x
  proof (cases "x = v")
    case True
    with that a(5) have "fs w1 = fs w" by (simp add: sk)
    moreover from b5 sv nv have "entry (fs w') (frames_dir v d) = entry (fs w1) (frames_dir v d)"
      by simp
    ultimately show ?thesis using True by simp
  next
    case False
    with that have xs: "x \<in> set vs" by simp
    with that fc1 have "0 < frame_count (fs w1) (frames_dir x d)" by simp
    with b6 xs have "entry (fs w') (frames_dir x d) = entry (fs w1) (frames_dir x d)" by simp
    moreover from xs have "stem x \<in> stem ` set vs" by (rule imageI)
    with nv have "stem x \<noteq> stem v" by auto
    with xs st have "stem x \<noteq> ''.''" "stem x \<noteq> ''..''" "stem x \<noteq> stem v"
      by auto
    ultimately show ?thesis using step by simp
  qed
  have c7: "fs w' = fs w" if "pending (fs w) d (v # vs) = []"
  proof -
    from that have p: "0 < frame_count (fs w) (frames_dir v d)" "pending (fs w) d vs = []"
      by (simp_all add: pending_Cons split: if_splits)
    with a(5) have "fs w1 = fs w" by (simp add: sk)
    moreover from p b7 have "fs w' = fs w1" by (simp add: al)
    ultimately show ?thesis by simp
  qed
  show ?case
    apply (rule exI [of _ "ev1 @ ev2"])
    using c1 c2 c3 c4 c5 c6 c7 by blast
qed

lemma loop_forced:
  "loop e d True tot i vs cs w = (Inr cs', w') \<Longrightarrow>
    \<exists>evs. out w' = out w @ evs \<and> skips evs = 0 \<and> attempts evs = length vs \<and>
      attempted evs = map stem vs"
proof (induction vs arbitrary: i cs w)
  case Nil
  then show ?case by (simp add: skips_def attempts_def attempted_def)
next
  case (Cons v vs)
  from Cons.prems obtain cs1 w1 where lb: "loop_body e d True tot i v cs w = (Inr cs1, w1)"
    and lp: "loop e d True tot (i + 1) vs cs1 w1 = (Inr cs', w')"
    by (auto split: prod.splits sum.splits)
  have ns: "\<not> skip_now (fs w) d True v" by (simp add: skip_now_iff)
  from loop_body_Inr_log [OF lb] ns obtain ev1 where
    a: "out w1 = out w @ ev1" "skips ev1 = 0" "attempts ev1 = 1" "attempted ev1 = [stem v]"
    by auto
  from Cons.IH [OF lp] obtain ev2 where
    b: "out w' = out w1 @ ev2" "skips ev2 = 0" "attempts ev2 = length vs"
      "attempted ev2 = map stem vs"
    by blast
  show ?case
    apply (rule exI [of _ "ev1 @ ev2"])
    using a b by simp
qed

lemma log_marks [simp]:
  "skips [Found n] = 0" "attempts [Found n] = 0" "attempted [Found n] = []"
  "skips [Summary p s f n] = 0" "attempts [Summary p s f n] = 0" "attempted [Summary p s f n] = []"
  "skips [NoVideosFound d] = 0" "attempts [NoVideosFound d] = 0" "attempted [NoVideosFound d] = []"
  "skips [DirectoryNotFound d] = 0" "attempts [DirectoryNotFound d] = 0"
  "attempted [DirectoryNotFound d] = []"
  by (simp_all add: skips_def attempts_def attempted_def)

lemma log_marks_Cons [simp]:
  "skips (Found n # xs) = skips xs" "attempts (Found n # xs) = attempts xs"
  "attempted (Found n # xs) = attempted xs"
  by (simp_all add: skips_def attempts_def attempted_def)

lemma no_videos: "\<not> exists t d \<Longrightarrow> get_video_files t d = []"
  using videos_exists [of t d] by blast

lemma process_videos_Inr_cases:
  assumes pv: "process_videos e d frc w = (Inr u, w')"
  shows "(get_video_files (fs w) d = [] \<and> fs w' = fs w \<and>
          (\<exists>x. out w' = out w @ [x] \<and> skips [x] = 0 \<and> attempts [x] = 0 \<and> attempted [x] = [])) \<or>
         (get_video_files (fs w) d \<noteq> [] \<and>
          (\<exists>cs w1. loop e d frc (length (get_video_files (fs w) d)) 1 (get_video_files (fs w) d)
                      \<lparr>processed_count = 0, skipped_count = 0, failed_count = 0\<rparr>
                      (print (Found (length (get_video_files (fs w) d))) w) = (Inr cs, w1) \<and>
             fs w' = fs w1 \<and>
             out w' = out w1 @ [Summary (processed_count cs) (skipped_count cs) (failed_count cs)
                                  (length (get_video_files (fs w) d))]))"
proof (cases "get_video_files (fs w) d = []")
  case True
  show ?thesis
  proof (cases "exists (fs w) d")
    case e: True
    with True pv have "w' = print (NoVideosFound d) w"
      by (simp add: process_videos_def Let_def)
    with True show ?thesis by simp
  next
    case e: False
    with pv have "w' = print (DirectoryNotFound d) w"
      by (simp add: process_videos_def Let_def)
    with True show ?thesis by simp
  qed
next
  case False
  with pv videos_exists [OF False] show ?thesis
    by (auto simp: process_videos_def Let_def split: prod.splits sum.splits)
qed

lemma process_videos_unforced:
  assumes pd: "plain d" and tc: "tool_confined e"
    and st: "\<forall>v\<in>set (get_video_files (fs w) d). stem v \<noteq> ''.'' \<and> stem v \<noteq> ''..''"
    and di: "distinct (map stem (get_video_files (fs w) d))"
    and pv: "process_videos e d False w = (Inr u, w')"
  shows "\<exists>log. out w' = out w @ log \<and>
      skips log = length (already (fs w) d (get_video_files (fs w) d)) \<and>
      attempts log = length (pending (fs w) d (get_video_files (fs w) d)) \<and>
      attempted log = map stem (pending (fs w) d (get_video_files (fs w) d)) \<and>
      (\<forall>v\<in>set (get_video_files (fs w) d). 0 < frame_count (fs w) (frames_dir v d) \<longrightarrow>
           entry (fs w') (frames_dir v d) = entry (fs w) (frames_dir v d)) \<and>
      (pending (fs w) d (get_video_files (fs w) d) = [] \<longrightarrow> fs w' = fs w)"
proof -
  let ?vs = "get_video_files (fs w) d"
  from process_videos_Inr_cases [OF pv] show ?thesis
  proof (elim disjE conjE exE)
    fix x assume "?vs = []" "fs w' = fs w" "out w' = out w @ [x]" "skips [x] = 0"
      "attempts [x] = 0" "attempted [x] = []"
    then show ?thesis
      by (intro exI [of _ "[x]"]) (simp add: already_def pending_def)
  next
    fix cs w1
    assume lp: "loop e d False (length ?vs) 1 ?vs
                  \<lparr>processed_count = 0, skipped_count = 0, failed_count = 0\<rparr>
                  (print (Found (length ?vs)) w) = (Inr cs, w1)"
      and f: "fs w' = fs w1"
      and o: "out w' = out w1 @ [Summary (processed_count cs) (skipped_count cs)
                                   (failed_count cs) (length ?vs)]"
    from loop_unforced [OF pd tc st di lp] obtain evs where
      b: "out w1 = out (print (Found (length ?vs)) w) @ evs"
        "skips evs = length (already (fs w) d ?vs)"
        "attempts evs = length (pending (fs w) d ?vs)"
        "attempted evs = map stem (pending (fs w) d ?vs)"
      and b6: "\<forall>v\<in>set ?vs. 0 < frame_count (fs w) (frames_dir v d) \<longrightarrow>
           entry (fs w1) (frames_dir v d) = entry (fs w) (frames_dir v d)"
      and b7: "pending (fs w) d ?vs = [] \<longrightarrow> fs w1 = fs w"
      by auto
    let ?log = "[Found (length ?vs)] @ evs @
        [Summary (processed_count cs) (skipped_count cs) (failed_count cs) (length ?vs)]"
    have "out w' = out w @ ?log" using o b(1) by simp
    moreover have "skips ?log = length (already (fs w) d ?vs)"
      "attempts ?log = length (pending (fs w) d ?vs)"
      "attempted ?log = map stem (pending (fs w) d ?vs)"
      using b by simp_all
    ultimately show ?thesis
      using b6 b7 f by (intro exI [of _ ?log]) simp
  qed
qed

lemma process_videos_forced:
  assumes pv: "process_videos e d True w = (Inr u, w')"
  shows "\<exists>log. out w' = out w @ log \<and> skips log = 0 \<and>
      attempts log = length (get_video_files (fs w) d) \<and>
      attempted log = map stem (get_video_files (fs w) d)"
proof -
  let ?vs = "get_video_files (fs w) d"
  from process_videos_Inr_cases [OF pv] show ?thesis
  proof (elim disjE conjE exE)
    fix x assume "?vs = []" "fs w' = fs w" "out w' = out w @ [x]" "skips [x] = 0"
      "attempts [x] = 0" "attempted [x] = []"
    then show ?thesis
      by (intro exI [of _ "[x]"]) simp
  next
    fix cs w1
    assume lp: "loop e d True (length ?vs) 1 ?vs
                  \<lparr>processed_count = 0, skipped_count = 0, failed_count = 0\<rparr>
                  (print (Found (length ?vs)) w) = (Inr cs, w1)"
      and o: "out w' = out w1 @ [Summary (processed_count cs) (skipped_count cs)
                                   (failed_count cs) (length ?vs)]"
    from loop_forced [OF lp] obtain evs where
      b: "out w1 = out (print (Found (length ?vs)) w) @ evs"
        "skips evs = 0" "attempts evs = length ?vs" "attempted evs = map stem ?vs"
      by auto
    let ?log = "[Found (length ?vs)] @ evs @
        [Summary (processed_count cs) (skipped_count cs) (failed_count cs) (length ?vs)]"
    have "out w' = out w @ ?log" using o b(1) by simp
    moreover have "skips ?log = 0" "attempts ?log = length ?vs" "attempted ?log = map stem ?vs"
      using b by simp_all
    ultimately show ?thesis
      by (intro exI [of _ ?log]) simp
  qed
qed

lemma loop_body_skipped_iff:
  "(fst (loop_body e d frc tot i v cs w) = Inr (cs\<lparr>skipped_count := skipped_count cs + 1\<rparr>)) =
   (fst (fst (is_already_processed v d w)) \<and> \<not> frc)"
proof -
  have s: "(fst (fst (is_already_processed v d w)) \<and> \<not> frc) = skip_now (fs w) d frc v"
    by (simp add: skip_now_def is_already_processed_def Let_def)
  show ?thesis
  proof (cases "skip_now (fs w) d frc v")
    case True
    then have "0 < frame_count (fs w) (frames_dir v d)" "\<not> frc"
      by (simp_all add: skip_now_iff)
    from loop_body_skip [OF this, of e tot i cs] True show ?thesis
      unfolding s by simp
  next
    case False
    have "fst (loop_body e d frc tot i v cs w) \<noteq>
        Inr (cs\<lparr>skipped_count := skipped_count cs + 1\<rparr>)"
    proof
      assume a: "fst (loop_body e d frc tot i v cs w) =
          Inr (cs\<lparr>skipped_count := skipped_count cs + 1\<rparr>)"
      then have lb: "loop_body e d frc tot i v cs w =
          (Inr (cs\<lparr>skipped_count := skipped_count cs + 1\<rparr>), snd (loop_body e d frc tot i v cs w))"
        by (cases "loop_body e d frc tot i v cs w") simp
      from loop_body_Inr_cases [OF lb] False obtain r where
        "cs\<lparr>skipped_count := skipped_count cs + 1\<rparr> =
           (if tool_ok r then cs\<lparr>processed_count := processed_count cs + 1\<rparr>
            else cs\<lparr>failed_count := failed_count cs + 1\<rparr>)"
        by auto
      then have "skipped_count (cs\<lparr>skipped_count := skipped_count cs + 1\<rparr>) =
          skipped_count (if tool_ok r then cs\<lparr>processed_count := processed_count cs + 1\<rparr>
            else cs\<lparr>failed_count := failed_count cs + 1\<rparr>)"
        by (rule arg_cong)
      then show False by (simp split: if_splits)
    qed
    with False show ?thesis unfolding s by simp
  qed
qed

text \<open>
  Claim C2, as amended. A pass of the loop raises the skipped counter exactly when the
  check reports the video as already processed and the force flag is not set. Take a
  directory whose path is plain, a tool that is confined to its output directory, and
  videos whose stems are pairwise distinct and none of which is \<^verbatim>\<open>.\<close> or \<^verbatim>\<open>..\<close>; let
  \<open>M\<close> of the \<open>N\<close> videos be already processed when the run starts. Then a run without
  the force flag that returns has skipped \<open>M\<close> videos and attempted the \<open>N - M\<close>
  others, namely those without a frame at the start, in their order. A run with the
  force flag that returns has attempted all \<open>N\<close> videos and skipped none.
\<close>

theorem skip_or_attempt:
  "((fst (loop_body e d frc tot i v cs w) = Inr (cs\<lparr>skipped_count := skipped_count cs + 1\<rparr>)) =
      (fst (fst (is_already_processed v d w)) \<and> \<not> frc)) \<and>
   (plain d \<and> tool_confined e \<and>
    (\<forall>x\<in>set (get_video_files (fs wa) d). stem x \<noteq> ''.'' \<and> stem x \<noteq> ''..'') \<and>
    distinct (map stem (get_video_files (fs wa) d)) \<and>
    process_videos e d False wa = (Inr u, wb) \<longrightarrow>
      length (already (fs wa) d (get_video_files (fs wa) d)) \<le> length (get_video_files (fs wa) d) \<and>
      (\<exists>log. out wb = out wa @ log \<and>
         skips log = length (already (fs wa) d (get_video_files (fs wa) d)) \<and>
         attempts log = length (get_video_files (fs wa) d) -
                        length (already (fs wa) d (get_video_files (fs wa) d)) \<and>
         attempted log = map stem (pending (fs wa) d (get_video_files (fs wa) d)))) \<and>
   (process_videos e d True wc = (Inr u', wd) \<longrightarrow>
      (\<exists>log. out wd = out wc @ log \<and> skips log = 0 \<and>
         attempts log = length (get_video_files (fs wc) d) \<and>
         attempted log = map stem (get_video_files (fs wc) d)))"
proof (intro conjI impI)
  show "(fst (loop_body e d frc tot i v cs w) =
           Inr (cs\<lparr>skipped_count := skipped_count cs + 1\<rparr>)) =
      (fst (fst (is_already_processed v d w)) \<and> \<not> frc)"
    by (rule loop_body_skipped_iff)
next
  show "length (already (fs wa) d (get_video_files (fs wa) d)) \<le>
      length (get_video_files (fs wa) d)"
    using already_pending_length [of "fs wa" d "get_video_files (fs wa) d"] by simp
next
  assume a: "plain d \<and> tool_confined e \<and>
    (\<forall>x\<in>set (get_video_files (fs wa) d). stem x \<noteq> ''.'' \<and> stem x \<noteq> ''..'') \<and>
    distinct (map stem (get_video_files (fs wa) d)) \<and>
    process_videos e d False wa = (Inr u, wb)"
  let ?vs = "get_video_files (fs wa) d"
  from a process_videos_unforced [of d e wa u wb] obtain log where
    l: "out wb = out wa @ log" "skips log = length (already (fs wa) d ?vs)"
      "attempts log = length (pending (fs wa) d ?vs)"
      "attempted log = map stem (pending (fs wa) d ?vs)"
    by blast
  from already_pending_length [of "fs wa" d ?vs]
  have "length (pending (fs wa) d ?vs) = length ?vs - length (already (fs wa) d ?vs)"
    by simp
  with l show "\<exists>log. out wb = out wa @ log \<and>
         skips log = length (already (fs wa) d ?vs) \<and>
         attempts log = length ?vs - length (already (fs wa) d ?vs) \<and>
         attempted log = map stem (pending (fs wa) d ?vs)"
    by (intro exI [of _ log]) simp
next
  assume "process_videos e d True wc = (Inr u', wd)"
  then show "\<exists>log. out wd = out wc @ log \<and> skips log = 0 \<and>
         attempts log = length (get_video_files (fs wc) d) \<and>
         attempted log = map stem (get_video_files (fs wc) d)"
    by (rule process_videos_forced)
qed

lemma plain_vids: "plain [''vids'']"
  by (simp add: plain_def)

theorem skip_or_attempt_witness:
  "(\<exists>log. out (snd (process_videos example_env [''vids''] False \<lparr>fs = batch_fs, out = []\<rparr>)) = log \<and>
      skips log = 1 \<and> attempts log = 3 \<and> attempted log = [''bad'', ''game2'', ''zoom'']) \<and>
   (\<exists>log. out (snd (process_videos example_env [''vids''] True \<lparr>fs = batch_fs, out = []\<rparr>)) = log \<and>
      skips log = 0 \<and> attempts log = 4 \<and>
      attempted log = [''bad'', ''game1'', ''game2'', ''zoom''])"
proof -
  let ?wb = "\<lparr>fs = batch_fs, out = []\<rparr>"
  let ?d = "[''vids'']"
  let ?p = "process_videos example_env ?d False ?wb"
  let ?q = "process_videos example_env ?d True ?wb"
  have a1: "\<forall>x\<in>set (get_video_files (fs ?wb) ?d). stem x \<noteq> ''.'' \<and> stem x \<noteq> ''..''"
    by code_simp
  have a2: "distinct (map stem (get_video_files (fs ?wb) ?d))" by code_simp
  have a3: "?p = (Inr (), snd ?p)" by code_simp
  have a4: "?q = (Inr (), snd ?q)" by code_simp
  have n: "length (get_video_files (fs ?wb) ?d) = 4" by code_simp
  have m: "length (already (fs ?wb) ?d (get_video_files (fs ?wb) ?d)) = 1" by code_simp
  have pe: "map stem (pending (fs ?wb) ?d (get_video_files (fs ?wb) ?d)) =
      [''bad'', ''game2'', ''zoom'']"
    by code_simp
  have al: "map stem (get_video_files (fs ?wb) ?d) = [''bad'', ''game1'', ''game2'', ''zoom'']"
    by code_simp
  note t = skip_or_attempt [where d = ?d and e = example_env and wa = ?wb and u = "()"
      and wb = "snd ?p" and wc = ?wb and u' = "()" and wd = "snd ?q"]
  note t2 = t [THEN conjunct2, THEN conjunct1, THEN mp,
      OF conjI [OF plain_vids conjI [OF example_tool_confined conjI [OF a1 conjI [OF a2 a3]]]],
      THEN conjunct2]
  note t3 = t [THEN conjunct2, THEN conjunct2, THEN mp, OF a4]
  have g2: "\<exists>log. out (snd ?p) = log \<and>
      skips log = 1 \<and> attempts log = 3 \<and> attempted log = [''bad'', ''game2'', ''zoom'']"
    using t2 unfolding n m pe by simp
  have g3: "\<exists>log. out (snd ?q) = log \<and> skips log = 0 \<and> attempts log = 4 \<and>
      attempted log = [''bad'', ''game1'', ''game2'', ''zoom'']"
    using t3 unfolding n al by simp
  from g2 g3 show ?thesis by (intro conjI)
qed

text \<open>
  Claim C2, as stated, fails: \<open>a.MP4\<close> and \<open>a.mp4\<close> share the directory \<open>a\<close>. Neither
  is processed when the run starts, yet the run without the force flag extracts the
  first and, finding its frames, skips the second.
\<close>

theorem skip_or_attempt_counterexample:
  "get_video_files twin_fs [''vids''] = [[''vids'', ''a.MP4''], [''vids'', ''a.mp4'']] \<and>
   already twin_fs [''vids''] (get_video_files twin_fs [''vids'']) = [] \<and>
   skips (out (snd (process_videos example_env [''vids''] False \<lparr>fs = twin_fs, out = []\<rparr>))) = 1 \<and>
   attempts (out (snd (process_videos example_env [''vids''] False \<lparr>fs = twin_fs, out = []\<rparr>))) = 1"
  by code_simp

lemma pending_mono:
  assumes "\<And>x. x \<in> set vs \<Longrightarrow> 0 < frame_count t (frames_dir x d) \<Longrightarrow>
             0 < frame_count t' (frames_dir x d)"
  shows "pending t' d vs = filter (\<lambda>x. frame_count t' (frames_dir x d) = 0) (pending t d vs)"
proof -
  have "filter (\<lambda>x. frame_count t' (frames_dir x d) = 0) (pending t d vs) =
      filter (\<lambda>x. frame_count t (frames_dir x d) = 0 \<and> frame_count t' (frames_dir x d) = 0) vs"
    by (simp add: pending_def conj_commute)
  also have "\<dots> = filter (\<lambda>x. frame_count t' (frames_dir x d) = 0) vs"
  proof (intro filter_cong refl)
    fix x assume x: "x \<in> set vs"
    show "(frame_count t (frames_dir x d) = 0 \<and> frame_count t' (frames_dir x d) = 0) =
        (frame_count t' (frames_dir x d) = 0)"
      using assms [OF x] by (cases "frame_count t (frames_dir x d)") auto
  qed
  finally show ?thesis by (simp add: pending_def)
qed

text \<open>
  Claim C8, as amended. Take a directory whose path is plain, a tool that is confined
  to its output directory, and videos whose stems are pairwise distinct and none of
  which is \<^verbatim>\<open>.\<close> or \<^verbatim>\<open>..\<close>. Let a first run without the force flag return, let the
  second run start on the file system the first one left and find the same videos, and
  let it return as well. Then the second run attempts exactly the videos that have no
  frame after the first run, in their order, and skips all the others. Every video that
  had frames before the first run has the same number of frames after it; the second
  run attempts no video that the first run did not attempt, and not more videos than
  the first. When every video has a frame after the first run, the second run attempts
  nothing, skips every video and leaves the file system as it was.
\<close>

theorem second_run_skips_processed:
  assumes "plain d" and "tool_confined e"
    and "\<forall>x\<in>set (get_video_files (fs w) d). stem x \<noteq> ''.'' \<and> stem x \<noteq> ''..''"
    and "distinct (map stem (get_video_files (fs w) d))"
    and "process_videos e d False w = (Inr u, w1)"
    and "fs w1' = fs w1"
    and "get_video_files (fs w1) d = get_video_files (fs w) d"
    and "process_videos e d False w1' = (Inr u', w2)"
  shows "\<exists>log1 log2. out w1 = out w @ log1 \<and> out w2 = out w1' @ log2 \<and>
      attempted log2 = map stem (pending (fs w1) d (get_video_files (fs w) d)) \<and>
      skips log2 = length (already (fs w1) d (get_video_files (fs w) d)) \<and>
      attempts log2 = length (get_video_files (fs w) d) -
                      length (already (fs w1) d (get_video_files (fs w) d)) \<and>
      (\<forall>v\<in>set (get_video_files (fs w) d). 0 < frame_count (fs w) (frames_dir v d) \<longrightarrow>
           frame_count (fs w1) (frames_dir v d) = frame_count (fs w) (frames_dir v d)) \<and>
      set (attempted log2) \<subseteq> set (attempted log1) \<and>
      attempts log2 \<le> attempts log1 \<and>
      (pending (fs w1) d (get_video_files (fs w) d) = [] \<longrightarrow>
         attempts log2 = 0 \<and> skips log2 = length (get_video_files (fs w) d) \<and> fs w2 = fs w1)"
proof -
  let ?vs = "get_video_files (fs w) d"
  from process_videos_unforced [OF assms(1-5)] obtain log1 where
    a: "out w1 = out w @ log1"
      "attempts log1 = length (pending (fs w) d ?vs)"
      "attempted log1 = map stem (pending (fs w) d ?vs)"
    and a5: "\<forall>v\<in>set ?vs. 0 < frame_count (fs w) (frames_dir v d) \<longrightarrow>
           entry (fs w1) (frames_dir v d) = entry (fs w) (frames_dir v d)"
    by blast
  have st': "\<forall>x\<in>set (get_video_files (fs w1') d). stem x \<noteq> ''.'' \<and> stem x \<noteq> ''..''"
    and di': "distinct (map stem (get_video_files (fs w1') d))"
    using assms(3,4,6,7) by simp_all
  from process_videos_unforced [OF assms(1,2) st' di' assms(8)] obtain log2 where
    b: "out w2 = out w1' @ log2"
      "skips log2 = length (already (fs w1) d ?vs)"
      "attempts log2 = length (pending (fs w1) d ?vs)"
      "attempted log2 = map stem (pending (fs w1) d ?vs)"
    and b7: "pending (fs w1) d ?vs = [] \<longrightarrow> fs w2 = fs w1"
    unfolding assms(6,7) by blast
  have keep: "frame_count (fs w1) (frames_dir v d) = frame_count (fs w) (frames_dir v d)"
    if "v \<in> set ?vs" "0 < frame_count (fs w) (frames_dir v d)" for v
  proof -
    from that assms(3) have "stem v \<noteq> ''.''" "stem v \<noteq> ''..''" by auto
    from video_dirs_plain(3) [OF assms(1) this] a5 that show ?thesis
      by (intro frame_count_entry) simp_all
  qed
  have pm: "pending (fs w1) d ?vs =
      filter (\<lambda>x. frame_count (fs w1) (frames_dir x d) = 0) (pending (fs w) d ?vs)"
    using keep by (intro pending_mono) simp
  have c1: "attempts log2 = length ?vs - length (already (fs w1) d ?vs)"
    using already_pending_length [of "fs w1" d ?vs] b(3) by simp
  have c2: "set (attempted log2) \<subseteq> set (attempted log1)"
    unfolding a(3) b(4) by (subst pm) auto
  have c3: "attempts log2 \<le> attempts log1"
    unfolding a(2) b(3) by (subst pm) simp
  have c4: "attempts log2 = 0 \<and> skips log2 = length ?vs \<and> fs w2 = fs w1"
    if "pending (fs w1) d ?vs = []"
    using that b b7 already_pending_length [of "fs w1" d ?vs] by simp
  show ?thesis
    apply (rule exI [of _ log1])
    apply (rule exI [of _ log2])
    using a(1) b(1,2,4) c1 c2 c3 c4 keep by blast
qed

theorem second_run_skips_processed_witness:
  "(\<exists>log2. out (snd (process_videos example_env [''vids''] False
                       (snd (process_videos example_env [''vids''] False
                               \<lparr>fs = batch_fs, out = []\<rparr>)))) =
             out (snd (process_videos example_env [''vids''] False
                               \<lparr>fs = batch_fs, out = []\<rparr>)) @ log2 \<and>
           attempted log2 = [''bad''] \<and> skips log2 = 3 \<and> attempts log2 = 1) \<and>
   (\<exists>log2. out (snd (process_videos example_env [''vids''] False
                       (snd (process_videos example_env [''vids''] False
                               \<lparr>fs = good_fs, out = []\<rparr>)))) =
             out (snd (process_videos example_env [''vids''] False
                               \<lparr>fs = good_fs, out = []\<rparr>)) @ log2 \<and>
           attempts log2 = 0 \<and> skips log2 = 2) \<and>
   fs (snd (process_videos example_env [''vids''] False
              (snd (process_videos example_env [''vids''] False \<lparr>fs = good_fs, out = []\<rparr>)))) =
   fs (snd (process_videos example_env [''vids''] False \<lparr>fs = good_fs, out = []\<rparr>))"
proof -
  let ?d = "[''vids'']"
  let ?wb = "\<lparr>fs = batch_fs, out = []\<rparr>"
  let ?p = "process_videos example_env ?d False ?wb"
  let ?q = "process_videos example_env ?d False (snd ?p)"
  let ?wg = "\<lparr>fs = good_fs, out = []\<rparr>"
  let ?pg = "process_videos example_env ?d False ?wg"
  let ?qg = "process_videos example_env ?d False (snd ?pg)"
  have a1: "\<forall>x\<in>set (get_video_files (fs ?wb) ?d). stem x \<noteq> ''.'' \<and> stem x \<noteq> ''..''"
    by code_simp
  have a2: "distinct (map stem (get_video_files (fs ?wb) ?d))" by code_simp
  have a3: "?p = (Inr (), snd ?p)" by code_simp
  have a4: "fs (snd ?p) = fs (snd ?p)" by simp
  have a5: "get_video_files (fs (snd ?p)) ?d = get_video_files (fs ?wb) ?d" by code_simp
  have a6: "?q = (Inr (), snd ?q)" by code_simp
  have a7: "map stem (pending (fs (snd ?p)) ?d (get_video_files (fs ?wb) ?d)) = [''bad'']"
    by code_simp
  have a8: "length (already (fs (snd ?p)) ?d (get_video_files (fs ?wb) ?d)) = 3" by code_simp
  have a9: "length (get_video_files (fs ?wb) ?d) = 4" by code_simp
  have b1: "\<forall>x\<in>set (get_video_files (fs ?wg) ?d). stem x \<noteq> ''.'' \<and> stem x \<noteq> ''..''"
    by code_simp
  have b2: "distinct (map stem (get_video_files (fs ?wg) ?d))" by code_simp
  have b3: "?pg = (Inr (), snd ?pg)" by code_simp
  have b4: "fs (snd ?pg) = fs (snd ?pg)" by simp
  have b5: "get_video_files (fs (snd ?pg)) ?d = get_video_files (fs ?wg) ?d" by code_simp
  have b6: "?qg = (Inr (), snd ?qg)" by code_simp
  have b7: "pending (fs (snd ?pg)) ?d (get_video_files (fs ?wg) ?d) = []" by code_simp
  have b9: "length (get_video_files (fs ?wg) ?d) = 2" by code_simp
  from second_run_skips_processed [OF plain_vids example_tool_confined a1 a2 a3 a4 a5 a6]
  obtain log2 where
    "out (snd ?q) = out (snd ?p) @ log2"
    "attempted log2 = map stem (pending (fs (snd ?p)) ?d (get_video_files (fs ?wb) ?d))"
    "skips log2 = length (already (fs (snd ?p)) ?d (get_video_files (fs ?wb) ?d))"
    "attempts log2 = length (get_video_files (fs ?wb) ?d) -
                      length (already (fs (snd ?p)) ?d (get_video_files (fs ?wb) ?d))"
    by blast
  then have g1: "\<exists>log2. out (snd ?q) = out (snd ?p) @ log2 \<and>
           attempted log2 = [''bad''] \<and> skips log2 = 3 \<and> attempts log2 = 1"
    unfolding a7 a8 a9 by (intro exI [of _ log2]) simp
  from second_run_skips_processed [OF plain_vids example_tool_confined b1 b2 b3 b4 b5 b6]
  obtain log3 where
    "out (snd ?qg) = out (snd ?pg) @ log3"
    "pending (fs (snd ?pg)) ?d (get_video_files (fs ?wg) ?d) = [] \<longrightarrow>
         attempts log3 = 0 \<and> skips log3 = length (get_video_files (fs ?wg) ?d) \<and>
         fs (snd ?qg) = fs (snd ?pg)"
    by blast
  then have g2: "\<exists>log2. out (snd ?qg) = out (snd ?pg) @ log2 \<and>
           attempts log2 = 0 \<and> skips log2 = 2"
    and g3: "fs (snd ?qg) = fs (snd ?pg)"
    unfolding b9 using b7 by auto
  from g1 g2 g3 show ?thesis by (intro conjI)
qed

text \<open>
  Claim C8, as stated, fails: a video whose extraction failed and left no frame is
  attempted again by the second run. It fails as well where every extraction succeeds:
  the directory made for \<open>a.mp4.mp4\<close> is called \<open>a.mp4\<close>, so the second run finds it
  as one more video and attempts it.
\<close>

theorem second_run_retries_counterexample:
  "attempts (out (snd (process_videos failing_env [''vids''] False \<lparr>fs = single_fs, out = []\<rparr>))) = 1 \<and>
   attempts (out (snd (process_videos failing_env [''vids''] False
      (snd (process_videos failing_env [''vids''] False \<lparr>fs = single_fs, out = []\<rparr>))))) = 2 \<and>
   skips (out (snd (process_videos failing_env [''vids''] False
      (snd (process_videos failing_env [''vids''] False \<lparr>fs = single_fs, out = []\<rparr>))))) = 0 \<and>
   extractions (out (snd (process_videos example_env [''vids''] False
      \<lparr>fs = nested_fs, out = []\<rparr>))) = 1 \<and>
   get_video_files (fs (snd (process_videos example_env [''vids''] False
      \<lparr>fs = nested_fs, out = []\<rparr>))) [''vids''] =
     [[''vids'', ''a.mp4''], [''vids'', ''a.mp4.mp4'']] \<and>
   attempts (out (snd (process_videos example_env [''vids''] False
      (snd (process_videos example_env [''vids''] False \<lparr>fs = nested_fs, out = []\<rparr>))))) = 2"
  by code_simp

end
